theory Spec2Isabelle
  imports Complex_Main "HOL-Library.Multiset" "HOL-Library.List_Lexorder" "HOL-Library.Char_ord"
begin

section \<open>JavaScript values\<close>

text \<open>
  The services are written in JavaScript. Numbers are modelled as exact reals (rounding of
  IEEE doubles is not modelled); the three non-finite numbers are separate constructors, so
  that a division by zero or a failed parse is a visible value of the model.
\<close>

datatype jsnum = Num real | NaN | PosInfinity | NegInfinity

datatype jsval = JNull | JUndefined | JNumber jsnum | JString string

text \<open>Reading \<open>a[i]\<close>: outside the array JavaScript yields \<open>undefined\<close>.\<close>

definition at_index :: "'a list \<Rightarrow> int \<Rightarrow> 'a option" where
  "at_index a i = (if 0 \<le> i \<and> i < int (length a) then Some (a ! nat i) else None)"

section \<open>Analytics service: percentile\<close>

text \<open>
  \<open>calculatePercentile(sortedArray, percentile)\<close> of \<open>analyticsService.js\<close>. An index
  outside the array reads \<open>undefined\<close>, which is returned as such on the
  \<open>lower === upper\<close> path and turns the interpolation into \<open>NaN\<close> on the other.
\<close>

definition calculatePercentile :: "real list \<Rightarrow> real \<Rightarrow> jsval" where
  "calculatePercentile sortedArray percentile =
     (if length sortedArray = 0 then JNull
      else if length sortedArray = 1 then JNumber (Num (sortedArray ! 0))
      else
        let index = (percentile / 100) * real (length sortedArray - 1);
            lower = \<lfloor>index\<rfloor>;
            upper = \<lceil>index\<rceil>;
            fraction = index - of_int lower
        in if lower = upper
           then (case at_index sortedArray lower of
                   None \<Rightarrow> JUndefined
                 | Some v \<Rightarrow> JNumber (Num v))
           else (case (at_index sortedArray lower, at_index sortedArray upper) of
                   (Some lo, Some hi) \<Rightarrow> JNumber (Num (lo * (1 - fraction) + hi * fraction))
                 | _ \<Rightarrow> JNumber NaN))"

section \<open>Rate limiter (\<open>src/utils/rateLimiter.js\<close>)\<close>

text \<open>
  The configuration of one bucket, as \<open>config.rateLimiting\<close> holds it. Every field is
  \<open>parseInt(env) || default\<close>, hence a non-zero integer.
\<close>

record bucket_config =
  capacity :: int
  refillRate :: int
  intervalMs :: int

record rate_limiting =
  perSecond :: bucket_config
  perMinute :: bucket_config
  perHour :: bucket_config

definition default_rateLimiting :: rate_limiting where
  "default_rateLimiting =
     \<lparr>perSecond = \<lparr>capacity = 2, refillRate = 2, intervalMs = 1000\<rparr>,
      perMinute = \<lparr>capacity = 50, refillRate = 50, intervalMs = 60000\<rparr>,
      perHour = \<lparr>capacity = 300, refillRate = 300, intervalMs = 3600000\<rparr>\<rparr>"

datatype bucket_name = per_second | per_minute | per_hour

text \<open>
  The Redis hash of a bucket (fields \<open>tokens\<close> and \<open>last_refill\<close>) together with the
  expiry that \<open>EXPIRE key 7200\<close> gives the key, in epoch milliseconds. The clock of the
  store is taken to be the clock of the caller. A key without expiry has \<open>None\<close>.
\<close>

record bucket_hash =
  tokens :: real
  last_refill :: int
  expires_at :: "int option"

type_synonym redis = "bucket_name \<Rightarrow> bucket_hash option"

definition redis_read :: "int \<Rightarrow> bucket_hash option \<Rightarrow> bucket_hash option" where
  "redis_read currentTimeMs entry =
     (case entry of
        None \<Rightarrow> None
      | Some b \<Rightarrow>
          (case expires_at b of
             None \<Rightarrow> Some b
           | Some e \<Rightarrow> if currentTimeMs < e then Some b else None))"

definition ttl_ms :: int where
  "ttl_ms = 7200 * 1000"

text \<open>Redis turns the Lua numbers of a script reply into integers by truncation.\<close>

definition lua_to_integer :: "real \<Rightarrow> int" where
  "lua_to_integer x = (if 0 \<le> x then \<lfloor>x\<rfloor> else \<lceil>x\<rceil>)"

text \<open>
  \<open>TOKEN_BUCKET_LUA\<close>: the script that Redis runs atomically. Its arguments are the
  key's present content and \<open>ARGV[1..5]\<close>; it yields the reply
  \<open>{allowed, tokens, waitTimeMs}\<close> and the content written back.
\<close>

definition TOKEN_BUCKET_LUA ::
  "bucket_hash option \<Rightarrow> int \<Rightarrow> int \<Rightarrow> int \<Rightarrow> int \<Rightarrow> int \<Rightarrow> (int \<times> int \<times> int) \<times> bucket_hash" where
  "TOKEN_BUCKET_LUA entry l_capacity l_refillRate l_intervalMs tokensRequested currentTimeMs =
     (let bucket = redis_read currentTimeMs entry;
          tokens0 = (case bucket of None \<Rightarrow> of_int l_capacity | Some b \<Rightarrow> tokens b);
          lastRefill0 = (case bucket of None \<Rightarrow> currentTimeMs | Some b \<Rightarrow> last_refill b);
          elapsed = currentTimeMs - lastRefill0;
          tokensToAdd = \<lfloor>(of_int elapsed / of_int l_intervalMs) * (of_int l_refillRate :: real)\<rfloor>;
          tokens1 = (if tokensToAdd > 0 then min (of_int l_capacity) (tokens0 + of_int tokensToAdd)
                     else tokens0);
          lastRefill1 = (if tokensToAdd > 0 then currentTimeMs else lastRefill0)
      in if tokens1 \<ge> of_int tokensRequested
         then ((1, lua_to_integer (tokens1 - of_int tokensRequested), 0),
               \<lparr>tokens = tokens1 - of_int tokensRequested, last_refill = lastRefill1,
                expires_at = Some (currentTimeMs + ttl_ms)\<rparr>)
         else
           let tokensNeeded = of_int tokensRequested - tokens1;
               waitTimeMs = \<lceil>(tokensNeeded / of_int l_refillRate) * of_int l_intervalMs\<rceil>
           in ((0, lua_to_integer tokens1, waitTimeMs),
               \<lparr>tokens = tokens1, last_refill = lastRefill1,
                expires_at = Some (currentTimeMs + ttl_ms)\<rparr>))"

text \<open>The reply of one bucket check, and the reply of \<open>acquireToken\<close>.\<close>

record limiter_reply =
  allowed :: bool
  waitTimeMs :: int

record check_result = limiter_reply +
  tokensRemaining :: real

record acquire_result = limiter_reply +
  bucketStates :: "bucket_name \<rightharpoonup> check_result"

text \<open>\<open>String.prototype.includes\<close>.\<close>

fun starts_with :: "string \<Rightarrow> string \<Rightarrow> bool" where
  "starts_with s [] = True"
| "starts_with [] (c # cs) = False"
| "starts_with (x # xs) (c # cs) = (x = c \<and> starts_with xs cs)"

fun js_includes :: "string \<Rightarrow> string \<Rightarrow> bool" where
  "js_includes [] sub = (sub = [])"
| "js_includes (x # xs) sub = (starts_with (x # xs) sub \<or> js_includes xs sub)"

text \<open>
  \<open>checkBucketStandard\<close>: the script through \<open>evalsha\<close>. The first argument lists the
  error messages of the attempts that fail before one succeeds: a \<open>NOSCRIPT\<close> error
  reloads the script and tries again, any other error is thrown to the caller.
  \<open>currentTimeMs\<close> is \<open>Date.now()\<close> of the attempt that reaches the script.
\<close>

fun checkBucketStandard ::
  "string list \<Rightarrow> bucket_config \<Rightarrow> int \<Rightarrow> bucket_hash option \<Rightarrow> string + (check_result \<times> bucket_hash)" where
  "checkBucketStandard [] bucketConfig currentTimeMs entry =
     (case TOKEN_BUCKET_LUA entry (capacity bucketConfig) (refillRate bucketConfig)
             (intervalMs bucketConfig) 1 currentTimeMs of
        ((r0, r1, r2), written) \<Rightarrow>
          Inr (\<lparr>allowed = (r0 = 1), waitTimeMs = r2, tokensRemaining = of_int r1\<rparr>, written))"
| "checkBucketStandard (message # later) bucketConfig currentTimeMs entry =
     (if js_includes message ''NOSCRIPT''
      then checkBucketStandard later bucketConfig currentTimeMs entry
      else Inl message)"

text \<open>
  \<open>checkBucketUpstash\<close>: read, refill, consume and write as separate REST calls, inside a
  \<open>try\<close> whose handler fails open. \<open>upstash_fault\<close> says which call throws, if any.

  The fields are read through a truthiness test (\<open>bucket?.tokens ? parseFloat(...) :
  capacity\<close>). The flag \<open>deserialize\<close> is the client option
  \<open>automaticDeserialization\<close> (on unless switched off; \<open>redis.js\<close> does not switch it
  off): with it the stored text \<open>"0"\<close> reaches the code as the number 0, which is falsy;
  without it every stored field is a non-empty string, which is truthy.
\<close>

datatype upstash_fault = NoFault | HgetallFails | HsetFails | ExpireFails

definition checkBucketUpstash ::
  "bool \<Rightarrow> upstash_fault \<Rightarrow> bucket_config \<Rightarrow> int \<Rightarrow> bucket_hash option \<Rightarrow> check_result \<times> bucket_hash option" where
  "checkBucketUpstash deserialize fault bucketConfig currentTimeMs entry =
     (let failOpen = \<lparr>allowed = True, waitTimeMs = 0, tokensRemaining = 0\<rparr> in
      if fault = HgetallFails then (failOpen, entry)
      else
        let bucket = redis_read currentTimeMs entry;
            tokens0 = (case bucket of
                         None \<Rightarrow> of_int (capacity bucketConfig)
                       | Some b \<Rightarrow> if deserialize \<and> tokens b = 0
                                   then of_int (capacity bucketConfig) else tokens b);
            lastRefill0 = (case bucket of
                             None \<Rightarrow> currentTimeMs
                           | Some b \<Rightarrow> if deserialize \<and> last_refill b = 0
                                       then currentTimeMs else last_refill b);
            elapsed = currentTimeMs - lastRefill0;
            tokensToAdd = \<lfloor>(of_int elapsed / of_int (intervalMs bucketConfig))
                             * (of_int (refillRate bucketConfig) :: real)\<rfloor>;
            tokens1 = (if tokensToAdd > 0
                       then min (of_int (capacity bucketConfig)) (tokens0 + of_int tokensToAdd)
                       else tokens0);
            lastRefill1 = (if tokensToAdd > 0 then currentTimeMs else lastRefill0);
            tokens2 = (if tokens1 \<ge> 1 then tokens1 - 1 else tokens1);
            kept_expiry = (case bucket of None \<Rightarrow> None | Some b \<Rightarrow> expires_at b);
            reply = (if tokens1 \<ge> 1
                     then \<lparr>allowed = True, waitTimeMs = 0, tokensRemaining = tokens2\<rparr>
                     else
                       let tokensNeeded = 1 - tokens1
                       in \<lparr>allowed = False,
                           waitTimeMs = \<lceil>(tokensNeeded / of_int (refillRate bucketConfig))
                                           * of_int (intervalMs bucketConfig)\<rceil>,
                           tokensRemaining = tokens1\<rparr>)
        in if fault = HsetFails then (failOpen, entry)
           else if fault = ExpireFails
           then (failOpen,
                 Some \<lparr>tokens = tokens2, last_refill = lastRefill1, expires_at = kept_expiry\<rparr>)
           else (reply,
                 Some \<lparr>tokens = tokens2, last_refill = lastRefill1,
                       expires_at = Some (currentTimeMs + ttl_ms)\<rparr>))"

text \<open>
  \<open>checkBucket\<close> chooses by \<open>isUpstashRedis()\<close>. What the environment contributes to one
  check (the clock and the faults of the store) is a \<open>check_env\<close>.
\<close>

datatype backend = Standard | Upstash bool

record check_env =
  clock :: int
  evalsha_errors :: "string list"
  upstash_fault :: upstash_fault

definition at_time :: "int \<Rightarrow> check_env" where
  "at_time t = \<lparr>clock = t, evalsha_errors = [], upstash_fault = NoFault\<rparr>"

definition checkBucket ::
  "backend \<Rightarrow> bucket_name \<Rightarrow> bucket_config \<Rightarrow> check_env \<Rightarrow> redis \<Rightarrow> (string + check_result) \<times> redis" where
  "checkBucket be bucketName bucketConfig env store =
     (case be of
        Upstash deserialize \<Rightarrow>
          (case checkBucketUpstash deserialize (upstash_fault env) bucketConfig (clock env)
                  (store bucketName) of
             (result, entry) \<Rightarrow> (Inr result, store(bucketName := entry)))
      | Standard \<Rightarrow>
          (case checkBucketStandard (evalsha_errors env) bucketConfig (clock env)
                  (store bucketName) of
             Inl message \<Rightarrow> (Inl message, store)
           | Inr (result, written) \<Rightarrow> (Inr result, store(bucketName \<mapsto> written))))"

text \<open>
  \<open>acquireToken\<close>: the loop over the three buckets, with its accumulators \<open>results\<close>,
  \<open>allowed\<close> and \<open>maxWaitTime\<close>. An error thrown by a check leaves the loop; the
  buckets checked before it keep what was written.
\<close>

fun acquire_loop ::
  "backend \<Rightarrow> (bucket_name \<times> bucket_config \<times> check_env) list \<Rightarrow> redis \<Rightarrow>
   (bucket_name \<rightharpoonup> check_result) \<Rightarrow> bool \<Rightarrow> int \<Rightarrow> (string + acquire_result) \<times> redis" where
  "acquire_loop be [] store results allowed_acc maxWaitTime =
     (Inr \<lparr>allowed = allowed_acc, waitTimeMs = maxWaitTime, bucketStates = results\<rparr>, store)"
| "acquire_loop be ((bucketName, bucketConfig, env) # buckets) store results allowed_acc maxWaitTime =
     (case checkBucket be bucketName bucketConfig env store of
        (Inl message, store') \<Rightarrow> (Inl message, store')
      | (Inr result, store') \<Rightarrow>
          if \<not> allowed result
          then acquire_loop be buckets store' (results(bucketName \<mapsto> result)) False
                 (max maxWaitTime (waitTimeMs result))
          else acquire_loop be buckets store' (results(bucketName \<mapsto> result)) allowed_acc
                 maxWaitTime)"

definition acquireToken ::
  "backend \<Rightarrow> rate_limiting \<Rightarrow> check_env \<times> check_env \<times> check_env \<Rightarrow> redis \<Rightarrow> (string + acquire_result) \<times> redis" where
  "acquireToken be rateLimiting envs store =
     (case envs of
        (e1, e2, e3) \<Rightarrow>
          acquire_loop be
            [(per_second, perSecond rateLimiting, e1),
             (per_minute, perMinute rateLimiting, e2),
             (per_hour, perHour rateLimiting, e3)]
            store Map.empty True 0)"

text \<open>
  A run of one bucket: the script called at the given times, each call seeing what the
  call before wrote. \<open>bucket_trace\<close> pairs each time with the \<open>allowed\<close> flag of the
  reply; \<open>bucket_after\<close> is the content of the key at the end.
\<close>

definition script_step :: "bucket_config \<Rightarrow> bucket_hash option \<Rightarrow> int \<Rightarrow> bool \<times> bucket_hash" where
  "script_step cfg entry t =
     (case TOKEN_BUCKET_LUA entry (capacity cfg) (refillRate cfg) (intervalMs cfg) 1 t of
        ((r0, r1, r2), written) \<Rightarrow> (r0 = 1, written))"

fun bucket_trace :: "bucket_config \<Rightarrow> bucket_hash option \<Rightarrow> int list \<Rightarrow> (int \<times> bool) list" where
  "bucket_trace cfg entry [] = []"
| "bucket_trace cfg entry (t # ts) =
     (t, fst (script_step cfg entry t)) # bucket_trace cfg (Some (snd (script_step cfg entry t))) ts"

fun bucket_after :: "bucket_config \<Rightarrow> bucket_hash option \<Rightarrow> int list \<Rightarrow> bucket_hash option" where
  "bucket_after cfg entry [] = entry"
| "bucket_after cfg entry (t # ts) = bucket_after cfg (Some (snd (script_step cfg entry t))) ts"

text \<open>The allowed results of a trace whose time lies in the window \<open>[from, from + len)\<close>.\<close>

definition allowed_in_window :: "int \<Rightarrow> int \<Rightarrow> (int \<times> bool) list \<Rightarrow> nat" where
  "allowed_in_window from len trace =
     length (filter (\<lambda>(t, ok). ok \<and> from \<le> t \<and> t < from + len) trace)"

text \<open>
  Conditions under which the bound on a window is stated: a sensible configuration whose
  interval does not outlive the key's expiry, and a key content within its bounds.
\<close>

definition cfg_ok :: "bucket_config \<Rightarrow> bool" where
  "cfg_ok cfg \<longleftrightarrow>
     0 \<le> capacity cfg \<and> 0 < refillRate cfg \<and> 0 < intervalMs cfg \<and> intervalMs cfg \<le> ttl_ms"

definition hash_ok :: "bucket_config \<Rightarrow> int \<Rightarrow> bucket_hash \<Rightarrow> bool" where
  "hash_ok cfg t b \<longleftrightarrow>
     0 \<le> tokens b \<and> tokens b \<le> of_int (capacity cfg) \<and> last_refill b \<le> t"

definition entry_ok :: "bucket_config \<Rightarrow> int \<Rightarrow> bucket_hash option \<Rightarrow> bool" where
  "entry_ok cfg t entry \<longleftrightarrow> (case entry of None \<Rightarrow> True | Some b \<Rightarrow> hash_ok cfg t b)"

text \<open>
  The refill and consume steps of the script on explicit starting values, with the real
  number \<open>x\<close> whose floor is \<open>tokensToAdd\<close>; \<open>accrued\<close> is that number for a bucket last
  refilled at \<open>lr\<close> and read at \<open>t\<close>.
\<close>

definition refill_core :: "real \<Rightarrow> real \<Rightarrow> int \<Rightarrow> int \<Rightarrow> real \<Rightarrow> bool \<times> bucket_hash" where
  "refill_core cap tok lr t x =
     (let tokens1 = (if \<lfloor>x\<rfloor> > 0 then min cap (tok + of_int \<lfloor>x\<rfloor>) else tok);
          lr1 = (if \<lfloor>x\<rfloor> > 0 then t else lr)
      in (tokens1 \<ge> 1,
          \<lparr>tokens = (if tokens1 \<ge> 1 then tokens1 - 1 else tokens1), last_refill = lr1,
           expires_at = Some (t + ttl_ms)\<rparr>))"

definition accrued :: "bucket_config \<Rightarrow> int \<Rightarrow> int \<Rightarrow> real" where
  "accrued cfg lr t = (of_int (t - lr) / of_int (intervalMs cfg)) * of_int (refillRate cfg)"

text \<open>
  The configuration of a bucket by name (the \<open>buckets\<close> array of \<open>acquireToken\<close>), the
  wait of a bucket holding \<open>tok\<close> tokens as the specification words it, and a sequence of
  \<open>acquireToken\<close> calls on one store.
\<close>

definition bucket_cfg :: "rate_limiting \<Rightarrow> bucket_name \<Rightarrow> bucket_config" where
  "bucket_cfg rateLimiting n =
     (case n of per_second \<Rightarrow> perSecond rateLimiting
              | per_minute \<Rightarrow> perMinute rateLimiting
              | per_hour \<Rightarrow> perHour rateLimiting)"

definition bucket_wait :: "bucket_config \<Rightarrow> real \<Rightarrow> int" where
  "bucket_wait cfg tok = \<lceil>((1 - tok) / of_int (refillRate cfg)) * of_int (intervalMs cfg)\<rceil>"

fun acquire_many ::
  "backend \<Rightarrow> rate_limiting \<Rightarrow> redis \<Rightarrow> (check_env \<times> check_env \<times> check_env) list \<Rightarrow>
   (string + acquire_result) list" where
  "acquire_many be rateLimiting store [] = []"
| "acquire_many be rateLimiting store (envs # later) =
     fst (acquireToken be rateLimiting envs store)
       # acquire_many be rateLimiting (snd (acquireToken be rateLimiting envs store)) later"

definition reply_of :: "string + acquire_result \<Rightarrow> (bool \<times> int) option" where
  "reply_of outcome = (case outcome of Inl message \<Rightarrow> None | Inr r \<Rightarrow> Some (allowed r, waitTimeMs r))"

definition positive_rates :: "rate_limiting \<Rightarrow> bool" where
  "positive_rates rateLimiting \<longleftrightarrow>
     (\<forall>n. 0 < refillRate (bucket_cfg rateLimiting n) \<and> 0 < intervalMs (bucket_cfg rateLimiting n))"

text \<open>The same steps with the whole reply of the script.\<close>

definition lua_core :: "bucket_config \<Rightarrow> real \<Rightarrow> int \<Rightarrow> int \<Rightarrow> real \<Rightarrow> (int \<times> int \<times> int) \<times> bucket_hash" where
  "lua_core cfg tok lr t x =
     (let tokens1 = (if \<lfloor>x\<rfloor> > 0 then min (of_int (capacity cfg)) (tok + of_int \<lfloor>x\<rfloor>) else tok);
          lr1 = (if \<lfloor>x\<rfloor> > 0 then t else lr)
      in if tokens1 \<ge> 1
         then ((1, lua_to_integer (tokens1 - 1), 0),
               \<lparr>tokens = tokens1 - 1, last_refill = lr1, expires_at = Some (t + ttl_ms)\<rparr>)
         else ((0, lua_to_integer tokens1, bucket_wait cfg tokens1),
               \<lparr>tokens = tokens1, last_refill = lr1, expires_at = Some (t + ttl_ms)\<rparr>))"

section \<open>Analytics service (\<open>src/services/analyticsService.js\<close>)\<close>

subsection \<open>NAV rows\<close>

text \<open>
  A point of a NAV history is an object \<open>{date, nav}\<close>. The analytics read their rows from
  \<open>nav_history\<close> (\<open>nav DECIMAL(15,4) NOT NULL\<close>) through the connection pool of
  \<open>db/connection.js\<close>, which sets \<open>dateStrings\<close> and leaves \<open>decimalNumbers\<close> off: the
  driver then delivers a DECIMAL as its decimal string. A NAV is therefore either a number
  (as in the unit tests) or such a string, kept here as the integer of its ten-thousandths.
  Arithmetic and comparison with a number convert the string to its number; a comparison of
  two strings is the lexicographic one.
\<close>

datatype nav_value = NavNumber real | NavDecimal int

record ('d, 'n) nav_point =
  date :: 'd
  nav :: 'n

definition digit_char :: "nat \<Rightarrow> char" where
  "digit_char d = ''0123456789'' ! (d mod 10)"

function string_of_nat :: "nat \<Rightarrow> string" where
  "string_of_nat n = (if n < 10 then [digit_char n] else string_of_nat (n div 10) @ [digit_char (n mod 10)])"
  by pat_completeness auto
termination
  by (relation "measure id") auto

declare string_of_nat.simps [simp del]

text \<open>The text of a DECIMAL with four fractional digits, given as its ten-thousandths.\<close>

definition decimal_string :: "int \<Rightarrow> string" where
  "decimal_string k =
     (let m = nat \<bar>k\<bar>
      in (if k < 0 then ''-'' else '''') @ string_of_nat (m div 10000) @ ''.''
         @ [digit_char (m div 1000), digit_char (m div 100), digit_char (m div 10), digit_char m])"

definition num_of :: "nav_value \<Rightarrow> real" where
  "num_of v = (case v of NavNumber x \<Rightarrow> x | NavDecimal k \<Rightarrow> of_int k / 10000)"

definition nav_gt :: "nav_value \<Rightarrow> nav_value \<Rightarrow> bool" where
  "nav_gt a b =
     (case (a, b) of
        (NavDecimal x, NavDecimal y) \<Rightarrow> decimal_string x > decimal_string y
      | _ \<Rightarrow> num_of a > num_of b)"

text \<open>
  Rows as the analytics use them: the ISO date of a row is identified with its day number
  (days since the epoch), on which the source's \<open>Date\<close> arithmetic is addition of days.
\<close>

type_synonym nav_row = "(int, nav_value) nav_point"

subsection \<open>Arithmetic that leaves the finite numbers\<close>

definition js_divide :: "real \<Rightarrow> real \<Rightarrow> jsnum" where
  "js_divide a b =
     (if b \<noteq> 0 then Num (a / b)
      else if a = 0 then NaN
      else if a > 0 then PosInfinity else NegInfinity)"

fun js_less :: "jsnum \<Rightarrow> jsnum \<Rightarrow> bool" where
  "js_less (Num a) (Num b) = (a < b)"
| "js_less NaN y = False"
| "js_less x NaN = False"
| "js_less NegInfinity NegInfinity = False"
| "js_less NegInfinity y = True"
| "js_less x NegInfinity = False"
| "js_less PosInfinity y = False"
| "js_less x PosInfinity = True"

subsection \<open>Returns, CAGR, drawdown\<close>

definition calculateReturn :: "real \<Rightarrow> real \<Rightarrow> real option" where
  "calculateReturn startNav endNav =
     (if startNav \<le> 0 then None else Some ((endNav - startNav) / startNav))"

text \<open>
  \<open>Math.pow(base, 1 / years)\<close> for a whole number of years: a negative base has a result
  only for the exponent 1.
\<close>

definition calculateCAGR :: "real \<Rightarrow> real \<Rightarrow> int \<Rightarrow> jsnum option" where
  "calculateCAGR startNav endNav years =
     (if startNav \<le> 0 \<or> years \<le> 0 then None
      else
        let base = endNav / startNav
        in if 0 \<le> base then Some (Num (base powr (1 / of_int years) - 1))
           else if years = 1 then Some (Num (base - 1))
           else Some NaN)"

text \<open>
  \<open>calculateMaxDrawdown\<close>: the loop with its variables \<open>peak\<close> and \<open>maxDrawdown\<close>. A
  division by a zero peak gives \<open>NaN\<close> or an infinity, which the comparison treats as
  JavaScript does.
\<close>

fun drawdown_loop :: "nav_value \<Rightarrow> jsnum \<Rightarrow> nav_value list \<Rightarrow> jsnum" where
  "drawdown_loop peak maxDrawdown [] = maxDrawdown"
| "drawdown_loop peak maxDrawdown (v # navs) =
     (let peak' = (if nav_gt v peak then v else peak);
          drawdown = js_divide (num_of v - num_of peak') (num_of peak')
      in drawdown_loop peak' (if js_less drawdown maxDrawdown then drawdown else maxDrawdown) navs)"

definition calculateMaxDrawdown :: "('d, nav_value) nav_point list \<Rightarrow> jsval" where
  "calculateMaxDrawdown navHistory =
     (if length navHistory < 2 then JNull
      else JNumber (drawdown_loop (nav (navHistory ! 0)) (Num 0) (map nav navHistory)))"

text \<open>
  The specification's words for the maximum drawdown of a series of numbers: the least, over
  all points, of \<open>(nav - peak) / peak\<close> where \<open>peak\<close> is the greatest value up to that point.
\<close>

definition running_peak :: "real list \<Rightarrow> nat \<Rightarrow> real" where
  "running_peak navs i = Max (set (take (Suc i) navs))"

definition drawdown_at :: "real list \<Rightarrow> nat \<Rightarrow> real" where
  "drawdown_at navs i = (navs ! i - running_peak navs i) / running_peak navs i"

definition spec_max_drawdown :: "real list \<Rightarrow> real" where
  "spec_max_drawdown navs = Min (drawdown_at navs ` {..<length navs})"

definition number_series :: "real list \<Rightarrow> (nat, nav_value) nav_point list" where
  "number_series vs = map (\<lambda>(i, v). \<lparr>date = i, nav = NavNumber v\<rparr>) (enumerate 0 vs)"

subsection \<open>Rolling returns and rolling CAGRs\<close>

definition nav_by_date :: "nav_row list \<Rightarrow> (int \<rightharpoonup> nav_value)" where
  "nav_by_date navHistory = fold (\<lambda>p m. m(date p \<mapsto> nav p)) navHistory Map.empty"

text \<open>The inner loop over \<open>offset = 0 .. 5\<close>: the first date that has a NAV.\<close>

fun probe_past :: "(int \<rightharpoonup> nav_value) \<Rightarrow> int \<Rightarrow> int list \<Rightarrow> nav_value option" where
  "probe_past navByDate pastDate [] = None"
| "probe_past navByDate pastDate (offset # offsets) =
     (case navByDate (pastDate + offset) of
        Some v \<Rightarrow> Some v
      | None \<Rightarrow> probe_past navByDate pastDate offsets)"

definition past_nav :: "(int \<rightharpoonup> nav_value) \<Rightarrow> int \<Rightarrow> int \<Rightarrow> nav_value option" where
  "past_nav navByDate currentDate windowDays =
     probe_past navByDate (currentDate - windowDays) [0, 1, 2, 3, 4, 5]"

definition calculateRollingReturns :: "nav_row list \<Rightarrow> int \<Rightarrow> real list" where
  "calculateRollingReturns navHistory windowDays =
     (let navByDate = nav_by_date navHistory
      in concat (map (\<lambda>p. case past_nav navByDate (date p) windowDays of
                            None \<Rightarrow> []
                          | Some pastNav \<Rightarrow>
                              (case calculateReturn (num_of pastNav) (num_of (nav p)) of
                                 None \<Rightarrow> []
                               | Some returnValue \<Rightarrow> [returnValue]))
                     navHistory))"

definition calculateRollingCAGRs :: "nav_row list \<Rightarrow> int \<Rightarrow> jsnum list" where
  "calculateRollingCAGRs navHistory windowYears =
     (let windowDays = windowYears * 365;
          navByDate = nav_by_date navHistory
      in concat (map (\<lambda>p. case past_nav navByDate (date p) windowDays of
                            None \<Rightarrow> []
                          | Some pastNav \<Rightarrow>
                              (case calculateCAGR (num_of pastNav) (num_of (nav p)) windowYears of
                                 None \<Rightarrow> []
                               | Some cagr \<Rightarrow> [cagr]))
                     navHistory))"

subsection \<open>Analytics of one scheme and window\<close>

datatype window = W1Y | W3Y | W5Y | W10Y

fun windowToDays :: "window \<Rightarrow> int" where
  "windowToDays W1Y = 365"
| "windowToDays W3Y = 365 * 3"
| "windowToDays W5Y = 365 * 5"
| "windowToDays W10Y = 365 * 10"

fun windowYears :: "window \<Rightarrow> int" where
  "windowYears W1Y = 1"
| "windowYears W3Y = 3"
| "windowYears W5Y = 5"
| "windowYears W10Y = 10"

text \<open>
  The three CAGR fields. \<open>sort((a, b) => a - b)\<close> orders a sample of finite numbers; with a
  \<open>NaN\<close> in it the comparator is inconsistent and the order is left to the engine, so the
  sample is kept as it is (\<open>CagrUnordered\<close>).
\<close>

datatype cagr_summary = CagrNull | CagrStats real real jsval | CagrUnordered "jsnum list"

fun finite_value :: "jsnum \<Rightarrow> real option" where
  "finite_value (Num x) = Some x"
| "finite_value y = None"

definition cagr_fields :: "jsnum list \<Rightarrow> cagr_summary" where
  "cagr_fields rollingCAGRs =
     (if length rollingCAGRs = 0 then CagrNull
      else if list_all (\<lambda>c. finite_value c \<noteq> None) rollingCAGRs
      then
        let sortedCAGRs = sort (map (\<lambda>c. the (finite_value c)) rollingCAGRs)
        in CagrStats (sortedCAGRs ! 0) (sortedCAGRs ! (length sortedCAGRs - 1))
             (calculatePercentile sortedCAGRs 50)
      else CagrUnordered rollingCAGRs)"

record analytics =
  rollingReturnMin :: real
  rollingReturnMax :: real
  rollingReturnMedian :: jsval
  rollingReturnP25 :: jsval
  rollingReturnP75 :: jsval
  maxDrawdown :: jsval
  cagr :: cagr_summary
  dataStartDate :: int
  dataEndDate :: int

text \<open>
  \<open>computeSchemeAnalytics\<close>, given the rows that \<open>getAllNavHistory\<close> returns (ascending by
  date). \<open>None\<close> is the \<open>null\<close> of the three early returns.
\<close>

definition history_days :: "nav_row list \<Rightarrow> real" where
  "history_days navHistory =
     of_int (date (navHistory ! (length navHistory - 1)) - date (navHistory ! 0))"

definition computeSchemeAnalytics :: "window \<Rightarrow> nav_row list \<Rightarrow> analytics option" where
  "computeSchemeAnalytics windowType navHistory =
     (let windowDays = windowToDays windowType;
          windowYears = windowYears windowType
      in if length navHistory = 0 then None
         else if history_days navHistory < of_int windowDays * (9 / 10) then None
         else
           let rollingReturns = calculateRollingReturns navHistory windowDays
           in if length rollingReturns = 0 then None
              else
                let sortedReturns = sort rollingReturns;
                    rollingCAGRs = calculateRollingCAGRs navHistory windowYears
                in Some \<lparr>rollingReturnMin = sortedReturns ! 0,
                         rollingReturnMax = sortedReturns ! (length sortedReturns - 1),
                         rollingReturnMedian = calculatePercentile sortedReturns 50,
                         rollingReturnP25 = calculatePercentile sortedReturns 25,
                         rollingReturnP75 = calculatePercentile sortedReturns 75,
                         maxDrawdown = calculateMaxDrawdown navHistory,
                         cagr = cagr_fields rollingCAGRs,
                         dataStartDate = date (navHistory ! 0),
                         dataEndDate = date (navHistory ! (length navHistory - 1))\<rparr>)"

section \<open>Upstream client (\<open>mfApiClient.js\<close>)\<close>

subsection \<open>\<open>parseFloat\<close>\<close>

text \<open>
  \<open>parseFloat\<close> on a string: leading white space is skipped, then the longest prefix that
  is a decimal literal (sign, \<open>Infinity\<close>, digits, fraction, exponent) is the result, and
  \<open>NaN\<close> when there is none. Strings are ASCII here, and the value is the exact one.
\<close>

definition is_digit :: "char \<Rightarrow> bool" where
  "is_digit c \<longleftrightarrow> c \<in> set ''0123456789''"

definition digit_value :: "char \<Rightarrow> nat" where
  "digit_value c = of_char c - 48"

definition digits_value :: "string \<Rightarrow> nat" where
  "digits_value ds = foldl (\<lambda>a c. 10 * a + digit_value c) 0 ds"

definition is_space :: "char \<Rightarrow> bool" where
  "is_space c \<longleftrightarrow> c \<in> {CHR '' '', CHR 0x09, CHR 0x0A, CHR 0x0B, CHR 0x0C, CHR 0x0D}"

definition exponent_of :: "string \<Rightarrow> int" where
  "exponent_of rest =
     (case rest of
        [] \<Rightarrow> 0
      | e # r \<Rightarrow>
          if e = CHR ''e'' \<or> e = CHR ''E''
          then (case r of
                  [] \<Rightarrow> 0
                | s # r' \<Rightarrow>
                    if s = CHR ''-'' then
                      (if takeWhile is_digit r' = [] then 0
                       else - int (digits_value (takeWhile is_digit r')))
                    else if s = CHR ''+'' then int (digits_value (takeWhile is_digit r'))
                    else int (digits_value (takeWhile is_digit r)))
          else 0)"

definition scale10 :: "real \<Rightarrow> int \<Rightarrow> real" where
  "scale10 x e = (if 0 \<le> e then x * 10 ^ nat e else x / 10 ^ nat (- e))"

definition parse_unsigned :: "string \<Rightarrow> jsnum" where
  "parse_unsigned s =
     (if starts_with s ''Infinity'' then PosInfinity
      else
        let whole = takeWhile is_digit s;
            rest = dropWhile is_digit s;
            dotted = (rest \<noteq> [] \<and> hd rest = CHR ''.'');
            fraction = (if dotted then takeWhile is_digit (tl rest) else []);
            rest' = (if dotted then dropWhile is_digit (tl rest) else rest)
        in if whole = [] \<and> fraction = [] then NaN
           else Num (scale10 (real (digits_value whole)
                              + real (digits_value fraction) / 10 ^ length fraction)
                       (exponent_of rest')))"

fun js_negate :: "jsnum \<Rightarrow> jsnum" where
  "js_negate (Num x) = Num (- x)"
| "js_negate NaN = NaN"
| "js_negate PosInfinity = NegInfinity"
| "js_negate NegInfinity = PosInfinity"

definition parseFloat_string :: "string \<Rightarrow> jsnum" where
  "parseFloat_string s =
     (case dropWhile is_space s of
        [] \<Rightarrow> NaN
      | c # cs \<Rightarrow>
          if c = CHR ''-'' then js_negate (parse_unsigned cs)
          else if c = CHR ''+'' then parse_unsigned cs
          else parse_unsigned (c # cs))"

text \<open>
  \<open>parseFloat\<close> on any value first turns it into a string; a number survives that
  unchanged, \<open>"null"\<close> and \<open>"undefined"\<close> are not numbers.
\<close>

fun parseFloat :: "jsval \<Rightarrow> jsnum" where
  "parseFloat (JString s) = parseFloat_string s"
| "parseFloat (JNumber n) = n"
| "parseFloat JNull = NaN"
| "parseFloat JUndefined = NaN"

subsection \<open>Normalisation of a scheme response\<close>

text \<open>
  The upstream response: \<open>meta\<close> with a numeric \<open>scheme_code\<close>, and \<open>data\<close> (which may be
  missing), a list of \<open>{date: "DD-MM-YYYY", nav: "<decimal>"}\<close>.
\<close>

record api_meta =
  scheme_code :: nat
  scheme_name :: string
  fund_house :: string
  scheme_category :: string
  scheme_type :: string

record api_response =
  meta :: api_meta
  data :: "(string, string) nav_point list option"

record scheme =
  schemeCode :: string
  schemeName :: string
  amc :: string
  category :: string

record scheme_meta = scheme +
  schemeType :: string

text \<open>\<open>String.prototype.split\<close> on one separator character.\<close>

fun split_on :: "char \<Rightarrow> string \<Rightarrow> string list" where
  "split_on sep [] = [[]]"
| "split_on sep (c # cs) =
     (if c = sep then [] # split_on sep cs
      else (case split_on sep cs of
              [] \<Rightarrow> [[c]]
            | w # ws \<Rightarrow> (c # w) # ws))"

text \<open>
  An element of the destructured \<open>[day, month, year]\<close>; a missing one is \<open>undefined\<close>, which
  the template literal prints as that word.
\<close>

definition part :: "string list \<Rightarrow> nat \<Rightarrow> string" where
  "part ps i = (if i < length ps then ps ! i else ''undefined'')"

definition parseNavDate :: "string \<Rightarrow> string" where
  "parseNavDate dateStr =
     (let ps = split_on CHR ''-'' dateStr;
          day = part ps 0;
          month = part ps 1;
          year = part ps 2
      in year @ ''-'' @ month @ ''-'' @ day)"

text \<open>
  \<open>normalizeSchemeData\<close> returns \<open>{meta, navHistory}\<close>, here a pair. The sort is stable;
  \<open>localeCompare\<close> is taken as the order of the character codes, which it is on dates of
  one format.
\<close>

definition normalizeSchemeData ::
  "api_response \<Rightarrow> scheme_meta \<times> (string, jsnum) nav_point list" where
  "normalizeSchemeData apiResponse =
     (let normalizedMeta =
            \<lparr>schemeCode = string_of_nat (scheme_code (meta apiResponse)),
             schemeName = scheme_name (meta apiResponse),
             amc = fund_house (meta apiResponse),
             category = scheme_category (meta apiResponse),
             schemeType = scheme_type (meta apiResponse)\<rparr>;
          navHistory =
            sort_key date
              (map (\<lambda>item. \<lparr>date = parseNavDate (date item), nav = parseFloat (JString (nav item))\<rparr>)
                 (case data apiResponse of None \<Rightarrow> [] | Some items \<Rightarrow> items))
      in (normalizedMeta, navHistory))"

text \<open>
  Dates of the upstream format and their calendar order: a well-formed date is
  \<open>DD-MM-YYYY\<close> with digits, and it is earlier than another when its year, month and day
  come first in that order. \<open>is_iso_date\<close> is the format \<open>YYYY-MM-DD\<close>.
\<close>

definition is_ddmmyyyy :: "string \<Rightarrow> bool" where
  "is_ddmmyyyy s \<longleftrightarrow>
     length s = 10 \<and> s ! 2 = CHR ''-'' \<and> s ! 5 = CHR ''-''
     \<and> list_all (\<lambda>i. is_digit (s ! i)) [0, 1, 3, 4, 6, 7, 8, 9]"

definition is_iso_date :: "string \<Rightarrow> bool" where
  "is_iso_date s \<longleftrightarrow>
     length s = 10 \<and> s ! 4 = CHR ''-'' \<and> s ! 7 = CHR ''-''
     \<and> list_all (\<lambda>i. is_digit (s ! i)) [0, 1, 2, 3, 5, 6, 8, 9]"

definition ymd_of_ddmmyyyy :: "string \<Rightarrow> nat \<times> nat \<times> nat" where
  "ymd_of_ddmmyyyy s =
     (digits_value [s ! 6, s ! 7, s ! 8, s ! 9], digits_value [s ! 3, s ! 4],
      digits_value [s ! 0, s ! 1])"

definition ymd_of_iso :: "string \<Rightarrow> nat \<times> nat \<times> nat" where
  "ymd_of_iso s =
     (digits_value [s ! 0, s ! 1, s ! 2, s ! 3], digits_value [s ! 5, s ! 6],
      digits_value [s ! 8, s ! 9])"

definition ymd_less :: "nat \<times> nat \<times> nat \<Rightarrow> nat \<times> nat \<times> nat \<Rightarrow> bool" where
  "ymd_less a b =
     (case (a, b) of
        ((y, m, d), (y', m', d')) \<Rightarrow> y < y' \<or> (y = y' \<and> (m < m' \<or> (m = m' \<and> d < d'))))"

definition earlier :: "string \<Rightarrow> string \<Rightarrow> bool" where
  "earlier s t = ymd_less (ymd_of_ddmmyyyy s) (ymd_of_ddmmyyyy t)"

section \<open>Backfill service (\<open>src/services/backfillService.js\<close>)\<close>

subsection \<open>Tables\<close>

datatype sync_type = Backfill | Incremental

datatype sync_status = Pending | InProgress | Completed | Failed

text \<open>A row of \<open>sync_state\<close>, of \<open>funds\<close>, and the three tables the backfill touches.\<close>

record sync_state_row =
  status :: sync_status
  last_synced_date :: "string option"
  total_records :: nat
  error_message :: "string option"
  started_at :: "string option"
  completed_at :: "string option"

record fund_row =
  row_scheme_name :: string
  row_amc :: string
  row_category :: string
  row_scheme_type :: "string option"

record database =
  funds :: "string \<rightharpoonup> fund_row"
  nav_history :: "string \<times> string \<rightharpoonup> jsnum"
  sync_state :: "string \<times> sync_type \<rightharpoonup> sync_state_row"

subsection \<open>Data access\<close>

text \<open>
  \<open>fundsDao.upsert\<close> (\<open>INSERT ... ON DUPLICATE KEY UPDATE\<close>); \<open>fund.schemeType || null\<close>
  stores an empty type as \<open>NULL\<close>.
\<close>

definition fundsDao_upsert :: "database \<Rightarrow> scheme_meta \<Rightarrow> database" where
  "fundsDao_upsert db fund =
     db\<lparr>funds := (funds db)(schemeCode fund \<mapsto>
          \<lparr>row_scheme_name = schemeName fund, row_amc = amc fund, row_category = category fund,
           row_scheme_type = (if schemeType fund = [] then None else Some (schemeType fund))\<rparr>)\<rparr>"

definition syncStateDao_findBySchemeAndType ::
  "database \<Rightarrow> string \<Rightarrow> sync_type \<Rightarrow> sync_state_row option" where
  "syncStateDao_findBySchemeAndType db code syncType = sync_state db (code, syncType)"

text \<open>
  \<open>syncStateDao.create\<close>: the insert fails on the foreign key when the fund is missing, and
  on the unique key when the row exists.
\<close>

definition syncStateDao_create ::
  "database \<Rightarrow> string \<Rightarrow> sync_type \<Rightarrow> sync_status \<Rightarrow> string + database" where
  "syncStateDao_create db code syncType st =
     (if funds db code = None then Inl ''a foreign key constraint fails''
      else if sync_state db (code, syncType) \<noteq> None then Inl ''Duplicate entry''
      else Inr (db\<lparr>sync_state := (sync_state db)((code, syncType) \<mapsto>
                  \<lparr>status = st, last_synced_date = None, total_records = 0,
                   error_message = None, started_at = None, completed_at = None\<rparr>)\<rparr>))"

text \<open>
  \<open>syncStateDao.update\<close> is an \<open>UPDATE ... WHERE scheme_code = ? AND sync_type = ?\<close>: it
  changes the row when there is one and nothing otherwise. The fields to set are given as
  a function on the row.
\<close>

definition updateSyncState ::
  "database \<Rightarrow> string \<Rightarrow> sync_type \<Rightarrow> (sync_state_row \<Rightarrow> sync_state_row) \<Rightarrow> database" where
  "updateSyncState db code syncType updates =
     (case sync_state db (code, syncType) of
        None \<Rightarrow> db
      | Some row \<Rightarrow> db\<lparr>sync_state := (sync_state db)((code, syncType) \<mapsto> updates row)\<rparr>)"

text \<open>
  \<open>navHistoryDao.bulkUpsert\<close>: one row per point, a later point of the same date
  overwriting; the result is MySQL's \<open>affectedRows\<close> (1 for an insert, 2 for a changed row,
  0 for an unchanged one). The rounding of the column type is not modelled.
\<close>

fun bulkUpsert_rows ::
  "string \<Rightarrow> (string, jsnum) nav_point list \<Rightarrow> (string \<times> string \<rightharpoonup> jsnum) \<Rightarrow> nat \<Rightarrow>
   nat \<times> (string \<times> string \<rightharpoonup> jsnum)" where
  "bulkUpsert_rows code [] table affected = (affected, table)"
| "bulkUpsert_rows code (p # ps) table affected =
     (case table (code, date p) of
        None \<Rightarrow> bulkUpsert_rows code ps (table((code, date p) \<mapsto> nav p)) (affected + 1)
      | Some old \<Rightarrow>
          if old = nav p then bulkUpsert_rows code ps table affected
          else bulkUpsert_rows code ps (table((code, date p) \<mapsto> nav p)) (affected + 2))"

definition bulkUpsert :: "database \<Rightarrow> string \<Rightarrow> (string, jsnum) nav_point list \<Rightarrow> nat \<times> database" where
  "bulkUpsert db code navRecords =
     (if length navRecords = 0 then (0, db)
      else (case bulkUpsert_rows code navRecords (nav_history db) 0 of
              (affected, table) \<Rightarrow> (affected, db\<lparr>nav_history := table\<rparr>)))"

subsection \<open>The service\<close>

text \<open>
  \<open>getSyncState\<close>: the row, created as \<open>pending\<close> when missing (after the fund, when scheme
  information is given). The row read back may be \<open>null\<close> as far as the code knows.
\<close>

definition getSyncState ::
  "database \<Rightarrow> string \<Rightarrow> sync_type \<Rightarrow> scheme option \<Rightarrow> (string + sync_state_row option) \<times> database" where
  "getSyncState db code syncType schemeInfo =
     (case syncStateDao_findBySchemeAndType db code syncType of
        Some state \<Rightarrow> (Inr (Some state), db)
      | None \<Rightarrow>
          let db1 = (case schemeInfo of
                       None \<Rightarrow> db
                     | Some info \<Rightarrow>
                         fundsDao_upsert db
                           \<lparr>schemeCode = schemeCode info, schemeName = schemeName info,
                            amc = amc info, category = category info, schemeType = []\<rparr>)
          in (case syncStateDao_create db1 code syncType Pending of
                Inl message \<Rightarrow> (Inl message, db1)
              | Inr db2 \<Rightarrow> (Inr (syncStateDao_findBySchemeAndType db2 code syncType), db2)))"

text \<open>
  What the surroundings contribute to the backfill of a scheme: the answer of
  \<open>getSchemeData\<close> (\<open>Inl\<close> the message of the error it throws: rate-limit timeout, HTTP
  429, transport), the message of an error thrown by the write of the fund or of the NAV
  rows, if any, and the two time stamps.
\<close>

record backfill_env =
  fetch :: "string \<Rightarrow> string + api_response"
  upsertFund_error :: "string \<Rightarrow> string option"
  upsertNav_error :: "string \<Rightarrow> string option"
  started_text :: string
  completed_text :: string

datatype backfill_result =
  Success string nat "string option" "string option"
| Failure string string

text \<open>The \<open>catch\<close> block of \<open>backfillScheme\<close>.\<close>

definition backfill_failed :: "database \<Rightarrow> string \<Rightarrow> string \<Rightarrow> backfill_result \<times> database" where
  "backfill_failed db code message =
     (Failure code message,
      updateSyncState db code Backfill (\<lambda>row. row\<lparr>status := Failed, error_message := Some message\<rparr>))"

definition or_else :: "string \<Rightarrow> string \<Rightarrow> string" where
  "or_else a b = (if a = [] then b else a)"

definition backfillScheme :: "backfill_env \<Rightarrow> scheme \<Rightarrow> database \<Rightarrow> backfill_result \<times> database" where
  "backfillScheme env sch db =
     (let code = schemeCode sch;
          db1 = updateSyncState db code Backfill
                  (\<lambda>row. row\<lparr>status := InProgress, started_at := Some (started_text env),
                             error_message := None\<rparr>)
      in case fetch env code of
           Inl message \<Rightarrow> backfill_failed db1 code message
         | Inr apiData \<Rightarrow>
             (case normalizeSchemeData apiData of
                (normalized, navHistory) \<Rightarrow>
                  (case upsertFund_error env code of
                     Some message \<Rightarrow> backfill_failed db1 code message
                   | None \<Rightarrow>
                       let db2 = fundsDao_upsert db1
                                   \<lparr>schemeCode = code, schemeName = schemeName normalized,
                                    amc = or_else (amc sch) (amc normalized),
                                    category = or_else (category sch) (category normalized),
                                    schemeType = schemeType normalized\<rparr>
                       in if navHistory \<noteq> [] \<and> upsertNav_error env code \<noteq> None
                          then backfill_failed db2 code (the (upsertNav_error env code))
                          else
                            (case bulkUpsert db2 code navHistory of
                               (recordsInserted, db3) \<Rightarrow>
                                 let startDate = (if length navHistory > 0
                                                  then Some (date (navHistory ! 0)) else None);
                                     endDate = (if length navHistory > 0
                                                then Some (date (navHistory ! (length navHistory - 1)))
                                                else None);
                                     db4 = updateSyncState db3 code Backfill
                                             (\<lambda>row. row\<lparr>status := Completed,
                                                        last_synced_date := endDate,
                                                        total_records := length navHistory,
                                                        completed_at := Some (completed_text env)\<rparr>)
                                 in (Success code recordsInserted startDate endDate, db4)))))"

text \<open>
  \<open>backfillAllSchemes\<close>: the loop with its index, the counters of \<open>results\<close>, and the calls
  of \<open>progressCallback\<close>, which happen for the schemes that are processed. An error of
  \<open>getSyncState\<close> is not caught.
\<close>

record counts =
  total :: nat
  completed :: nat
  failed :: nat
  skipped :: nat

record results = counts +
  errors :: "(string \<times> string) list"

record progress = counts +
  current :: nat

fun backfill_loop ::
  "backfill_env \<Rightarrow> nat \<Rightarrow> nat \<Rightarrow> scheme list \<Rightarrow> results \<Rightarrow> progress list \<Rightarrow> database \<Rightarrow>
   (string + results) \<times> progress list \<times> database" where
  "backfill_loop env n i [] res calls db = (Inr res, calls, db)"
| "backfill_loop env n i (sch # later) res calls db =
     (case getSyncState db (schemeCode sch) Backfill (Some sch) of
        (Inl message, db1) \<Rightarrow> (Inl message, calls, db1)
      | (Inr None, db1) \<Rightarrow> (Inl ''Cannot read properties of null (reading 'status')'', calls, db1)
      | (Inr (Some syncState), db1) \<Rightarrow>
          if status syncState = Completed
          then backfill_loop env n (i + 1) later (res\<lparr>skipped := skipped res + 1\<rparr>) calls db1
          else
            (case backfillScheme env sch db1 of
               (result, db2) \<Rightarrow>
                 let res' = (case result of
                               Success c r s e \<Rightarrow> res\<lparr>completed := completed res + 1\<rparr>
                             | Failure c message \<Rightarrow>
                                 res\<lparr>failed := failed res + 1,
                                     errors := errors res @ [(schemeCode sch, message)]\<rparr>)
                 in backfill_loop env n (i + 1) later res'
                      (calls @ [\<lparr>total = n, completed = completed res', failed = failed res',
                                 skipped = skipped res', current = i + 1\<rparr>])
                      db2))"

definition backfillAllSchemes ::
  "backfill_env \<Rightarrow> scheme list \<Rightarrow> database \<Rightarrow> (string + results) \<times> progress list \<times> database" where
  "backfillAllSchemes env schemes db =
     backfill_loop env (length schemes) 0 schemes
       \<lparr>total = length schemes, completed = 0, failed = 0, skipped = 0, errors = []\<rparr> [] db"

text \<open>The status under which the backfill finds a scheme: a missing row is created pending.\<close>

definition backfill_status :: "database \<Rightarrow> scheme \<Rightarrow> sync_status" where
  "backfill_status db sch =
     (case sync_state db (schemeCode sch, Backfill) of None \<Rightarrow> Pending | Some row \<Rightarrow> status row)"

subsection \<open>What a backfill is expected to leave behind\<close>

text \<open>
  For comparison with the service: the history that the upstream gives for a scheme, the
  error that its backfill meets, if any (of the fetch, of the write of the fund, or of the
  write of a non-empty history), the NAV that a history leaves for a date (that of its last
  point of that date), and the state that a backfill of the scheme leaves in the database:
  after a backfill without error the row is \<open>completed\<close>, with the greatest date and the
  number of points of the history and both time stamps, and every point of the history is
  in \<open>nav_history\<close>; after an error the row is \<open>failed\<close> with the message.
\<close>

definition fetched_history :: "backfill_env \<Rightarrow> scheme \<Rightarrow> (string, jsnum) nav_point list" where
  "fetched_history env sch =
     (case fetch env (schemeCode sch) of
        Inl message \<Rightarrow> []
      | Inr apiData \<Rightarrow> snd (normalizeSchemeData apiData))"

definition backfill_error :: "backfill_env \<Rightarrow> scheme \<Rightarrow> string option" where
  "backfill_error env sch =
     (case fetch env (schemeCode sch) of
        Inl message \<Rightarrow> Some message
      | Inr apiData \<Rightarrow>
          (case upsertFund_error env (schemeCode sch) of
             Some message \<Rightarrow> Some message
           | None \<Rightarrow>
               if snd (normalizeSchemeData apiData) = [] then None
               else upsertNav_error env (schemeCode sch)))"

definition written_nav :: "(string, jsnum) nav_point list \<Rightarrow> string \<rightharpoonup> jsnum" where
  "written_nav history = map_of (rev (map (\<lambda>p. (date p, nav p)) history))"

definition backfill_recorded :: "backfill_env \<Rightarrow> scheme \<Rightarrow> database \<Rightarrow> bool" where
  "backfill_recorded env sch db =
     (case backfill_error env sch of
        None \<Rightarrow>
          sync_state db (schemeCode sch, Backfill)
            = Some \<lparr>status = Completed,
                    last_synced_date =
                      (if fetched_history env sch = [] then None
                       else Some (Max (date ` set (fetched_history env sch)))),
                    total_records = length (fetched_history env sch),
                    error_message = None,
                    started_at = Some (started_text env),
                    completed_at = Some (completed_text env)\<rparr>
          \<and> list_all (\<lambda>p. nav_history db (schemeCode sch, date p)
                              = written_nav (fetched_history env sch) (date p))
                (fetched_history env sch)
      | Some message \<Rightarrow>
          map_option (\<lambda>row. (status row, error_message row, started_at row))
            (sync_state db (schemeCode sch, Backfill))
            = Some (Failed, Some message, Some (started_text env)))"

section \<open>Ranking and the analytics responses (\<open>fundsDao.rankByMetric\<close>, \<open>routes/funds.js\<close>)\<close>

subsection \<open>The analytics table\<close>

text \<open>
  A row of \<open>analytics\<close>: nine nullable \<open>DECIMAL(10,4)\<close> columns, each kept as its
  ten-thousandths.
\<close>

record analytics_row =
  rolling_return_min :: "int option"
  rolling_return_max :: "int option"
  rolling_return_median :: "int option"
  rolling_return_p25 :: "int option"
  rolling_return_p75 :: "int option"
  max_drawdown :: "int option"
  cagr_min :: "int option"
  cagr_max :: "int option"
  cagr_median :: "int option"

text \<open>
  A row of the ranking query: the columns of the fund, those of its analytics row, and the
  latest NAV with its date (\<open>NULL\<close> for a fund without NAV rows).
\<close>

record rank_row =
  rank_scheme_code :: string
  rank_scheme_name :: string
  rank_amc :: string
  rank_category :: string
  stats :: analytics_row
  latest_nav :: "int option"
  latest_nav_date :: "string option"

subsection \<open>\<open>rankByMetric\<close>\<close>

datatype sort_order = ASC | DESC

text \<open>
  \<open>sortColumnMap[sortBy] || 'rolling_return_median'\<close>: the three keys of the map, the
  default for any other word, and no column at all for a word that names a property every
  object inherits, for which the lookup yields a function or an object and the statement
  is malformed.
\<close>

definition inherited_keys :: "string list" where
  "inherited_keys =
     [''constructor'', ''toString'', ''toLocaleString'', ''valueOf'', ''hasOwnProperty'',
      ''isPrototypeOf'', ''propertyIsEnumerable'', ''__proto__'', ''__defineGetter__'',
      ''__defineSetter__'', ''__lookupGetter__'', ''__lookupSetter__'']"

definition sortColumn :: "string \<Rightarrow> (analytics_row \<Rightarrow> int option) option" where
  "sortColumn sortBy =
     (if sortBy = ''median_return'' then Some rolling_return_median
      else if sortBy = ''max_drawdown'' then Some max_drawdown
      else if sortBy = ''cagr_median'' then Some cagr_median
      else if sortBy \<in> set inherited_keys then None
      else Some rolling_return_median)"

definition sortOrder :: "string \<Rightarrow> sort_order" where
  "sortOrder sortBy = (if sortBy = ''max_drawdown'' then ASC else DESC)"

text \<open>
  The rows that the joins and the \<open>WHERE\<close> clause select, in the order of the scan of
  \<open>funds\<close>: a fund whose category matches the \<open>LIKE\<close> pattern (given as a predicate), with
  its analytics row of the window, when the sort column of that row is not \<open>NULL\<close>.
\<close>

definition rank_candidates ::
  "(string \<Rightarrow> bool) \<Rightarrow> window \<Rightarrow> (analytics_row \<Rightarrow> int option) \<Rightarrow>
   (string \<times> fund_row) list \<Rightarrow> (string \<times> window \<rightharpoonup> analytics_row) \<Rightarrow>
   (string \<Rightarrow> (string \<times> int) option) \<Rightarrow> rank_row list" where
  "rank_candidates like windowType column fundsTable analyticsTable latest =
     List.map_filter
       (\<lambda>(code, f).
          if like (row_category f) then
            (case analyticsTable (code, windowType) of
               None \<Rightarrow> None
             | Some a \<Rightarrow>
                 if column a = None then None
                 else Some \<lparr>rank_scheme_code = code, rank_scheme_name = row_scheme_name f,
                            rank_amc = row_amc f, rank_category = row_category f, stats = a,
                            latest_nav = map_option snd (latest code),
                            latest_nav_date = map_option fst (latest code)\<rparr>)
          else None)
       fundsTable"

text \<open>
  \<open>ORDER BY a.<column> <order>\<close> names one sort key. The server returns the selected rows
  in an order of its choosing among those that respect the key (\<open>NULL\<close> lowest); that
  choice is a parameter, \<open>served\<close>.
\<close>

fun null_low_le :: "int option \<Rightarrow> int option \<Rightarrow> bool" where
  "null_low_le None y = True"
| "null_low_le (Some a) None = False"
| "null_low_le (Some a) (Some b) = (a \<le> b)"

fun precedes :: "sort_order \<Rightarrow> int option \<Rightarrow> int option \<Rightarrow> bool" where
  "precedes ASC x y = null_low_le x y"
| "precedes DESC x y = null_low_le y x"

definition order_by_respected ::
  "sort_order \<Rightarrow> (analytics_row \<Rightarrow> int option) \<Rightarrow> (rank_row list \<Rightarrow> rank_row list) \<Rightarrow>
   rank_row list \<Rightarrow> bool" where
  "order_by_respected ord column served rows \<longleftrightarrow>
     mset (served rows) = mset rows
     \<and> sorted_wrt (\<lambda>x y. precedes ord (column (stats x)) (column (stats y))) (served rows)"

definition rankByMetric ::
  "(rank_row list \<Rightarrow> rank_row list) \<Rightarrow> (string \<Rightarrow> bool) \<Rightarrow> string \<Rightarrow> window \<Rightarrow> nat \<Rightarrow>
   (string \<times> fund_row) list \<Rightarrow> (string \<times> window \<rightharpoonup> analytics_row) \<Rightarrow>
   (string \<Rightarrow> (string \<times> int) option) \<Rightarrow> string + rank_row list" where
  "rankByMetric served like sortBy windowType limit fundsTable analyticsTable latest =
     (case sortColumn sortBy of
        None \<Rightarrow> Inl ''You have an error in your SQL syntax''
      | Some column \<Rightarrow>
          Inr (take limit
                 (served (rank_candidates like windowType column fundsTable analyticsTable latest))))"

subsection \<open>Doubles\<close>

text \<open>
  The numbers of the routes are doubles. Away from the ends of their range a double is a
  real \<open>m * 2\<^sup>e\<close> with \<open>m\<close> an integer below \<open>2\<^sup>5\<^sup>3\<close> in magnitude, and the result of reading
  a decimal text or of a multiplication is the double nearest to the exact value, the one
  with even \<open>m\<close> when two are equally near. \<open>double_of\<close> is that rounding; overflow and
  subnormal numbers are not modelled (the columns hold at most ten digits).
\<close>

definition pow2 :: "int \<Rightarrow> real" where
  "pow2 e = (if 0 \<le> e then 2 ^ nat e else 1 / 2 ^ nat (- e))"

definition round_half_even :: "real \<Rightarrow> int" where
  "round_half_even y =
     (if y - of_int \<lfloor>y\<rfloor> < 1 / 2 then \<lfloor>y\<rfloor>
      else if 1 / 2 < y - of_int \<lfloor>y\<rfloor> then \<lfloor>y\<rfloor> + 1
      else if even \<lfloor>y\<rfloor> then \<lfloor>y\<rfloor> else \<lfloor>y\<rfloor> + 1)"

definition binade :: "real \<Rightarrow> int" where
  "binade x = \<lfloor>log 2 \<bar>x\<bar>\<rfloor>"

definition double_of :: "real \<Rightarrow> real" where
  "double_of x =
     (if x = 0 then 0
      else of_int (round_half_even (x / pow2 (binade x - 52))) * pow2 (binade x - 52))"

fun as_double :: "jsnum \<Rightarrow> jsnum" where
  "as_double (Num x) = Num (double_of x)"
| "as_double NaN = NaN"
| "as_double PosInfinity = PosInfinity"
| "as_double NegInfinity = NegInfinity"

subsection \<open>Formatting of the responses\<close>

text \<open>
  A \<open>DECIMAL\<close> column as the driver hands it over: \<open>null\<close> for \<open>NULL\<close>, and otherwise the
  decimal text, or the number when the pool is created with \<open>decimalNumbers\<close>. The pool of
  \<open>db/connection.js\<close> sets \<open>namedPlaceholders\<close> and \<open>dateStrings\<close> only.
\<close>

definition column_value :: "bool \<Rightarrow> int option \<Rightarrow> jsval" where
  "column_value decimalNumbers c =
     (case c of
        None \<Rightarrow> JNull
      | Some k \<Rightarrow> if decimalNumbers then JNumber (Num (double_of (of_int k / 10000)))
                  else JString (decimal_string k))"

definition pool_decimalNumbers :: bool where
  "pool_decimalNumbers = False"

fun truthy :: "jsval \<Rightarrow> bool" where
  "truthy JNull = False"
| "truthy JUndefined = False"
| "truthy (JNumber n) = (n \<noteq> NaN \<and> n \<noteq> Num 0)"
| "truthy (JString s) = (s \<noteq> [])"

text \<open>
  \<open>parseFloat\<close> as the routes use it: the double nearest to the value of the text; a number
  is a double already.
\<close>

fun parseFloat_double :: "jsval \<Rightarrow> jsnum" where
  "parseFloat_double (JString s) = as_double (parseFloat_string s)"
| "parseFloat_double (JNumber n) = n"
| "parseFloat_double JNull = NaN"
| "parseFloat_double JUndefined = NaN"

text \<open>\<open>x * 100\<close>, a multiplication of doubles.\<close>

fun times_100 :: "jsnum \<Rightarrow> jsnum" where
  "times_100 (Num x) = Num (double_of (x * 100))"
| "times_100 NaN = NaN"
| "times_100 PosInfinity = PosInfinity"
| "times_100 NegInfinity = NegInfinity"

text \<open>
  \<open>parseFloat(x.toFixed(1))\<close>. \<open>toFixed\<close> takes the exact value of the double \<open>x\<close> and
  prints the integer number of tenths nearest to it, the one of greater magnitude when two
  are equally near; the text read back is that number of tenths, which is also what
  \<open>res.json\<close> prints. The result is kept as the exact number of tenths.
\<close>

definition round_tenths :: "real \<Rightarrow> int" where
  "round_tenths x = (if x < 0 then - \<lfloor>- x * 10 + 1 / 2\<rfloor> else \<lfloor>x * 10 + 1 / 2\<rfloor>)"

fun fixed_1 :: "jsnum \<Rightarrow> jsnum" where
  "fixed_1 (Num x) = Num (of_int (round_tenths x) / 10)"
| "fixed_1 NaN = NaN"
| "fixed_1 PosInfinity = PosInfinity"
| "fixed_1 NegInfinity = NegInfinity"

text \<open>\<open>v ? parseFloat((parseFloat(v) * 100).toFixed(1)) : null\<close>\<close>

definition format_percent :: "jsval \<Rightarrow> jsval" where
  "format_percent v =
     (if truthy v then JNumber (fixed_1 (times_100 (parseFloat_double v))) else JNull)"

text \<open>\<open>res.json\<close> writes a number that is not finite as \<open>null\<close>.\<close>

fun json_value :: "jsval \<Rightarrow> jsval" where
  "json_value (JNumber (Num x)) = JNumber (Num x)"
| "json_value (JNumber n) = JNull"
| "json_value JUndefined = JNull"
| "json_value v = v"

definition response_field :: "bool \<Rightarrow> int option \<Rightarrow> jsval" where
  "response_field decimalNumbers c = json_value (format_percent (column_value decimalNumbers c))"

text \<open>The statistics of the body of \<open>GET /funds/:code/analytics\<close>.\<close>

record analytics_response =
  response_rolling_returns_min :: jsval
  response_rolling_returns_max :: jsval
  response_rolling_returns_median :: jsval
  response_rolling_returns_p25 :: jsval
  response_rolling_returns_p75 :: jsval
  response_max_drawdown :: jsval
  response_cagr_min :: jsval
  response_cagr_max :: jsval
  response_cagr_median :: jsval

definition analytics_body :: "bool \<Rightarrow> analytics_row \<Rightarrow> analytics_response" where
  "analytics_body decimalNumbers a =
     \<lparr>response_rolling_returns_min = response_field decimalNumbers (rolling_return_min a),
      response_rolling_returns_max = response_field decimalNumbers (rolling_return_max a),
      response_rolling_returns_median = response_field decimalNumbers (rolling_return_median a),
      response_rolling_returns_p25 = response_field decimalNumbers (rolling_return_p25 a),
      response_rolling_returns_p75 = response_field decimalNumbers (rolling_return_p75 a),
      response_max_drawdown = response_field decimalNumbers (max_drawdown a),
      response_cagr_min = response_field decimalNumbers (cagr_min a),
      response_cagr_max = response_field decimalNumbers (cagr_max a),
      response_cagr_median = response_field decimalNumbers (cagr_median a)\<rparr>"

text \<open>An entry of \<open>formattedFunds\<close> of \<open>GET /funds/rank\<close>.\<close>

record formatted_fund =
  rank :: nat
  fund_code :: string
  fund_name :: string
  fund_amc :: string
  median_return_window :: jsval
  max_drawdown_window :: jsval
  current_nav :: jsval
  last_updated :: jsval

definition or_null :: "jsval \<Rightarrow> jsval" where
  "or_null v = (if truthy v then v else JNull)"

definition formattedFunds :: "bool \<Rightarrow> rank_row list \<Rightarrow> formatted_fund list" where
  "formattedFunds decimalNumbers ranked =
     map (\<lambda>(index, fund).
            \<lparr>rank = index + 1, fund_code = rank_scheme_code fund,
             fund_name = rank_scheme_name fund, fund_amc = rank_amc fund,
             median_return_window
               = response_field decimalNumbers (rolling_return_median (stats fund)),
             max_drawdown_window = response_field decimalNumbers (max_drawdown (stats fund)),
             current_nav = or_null (column_value decimalNumbers (latest_nav fund)),
             last_updated = or_null (case latest_nav_date fund of
                                       None \<Rightarrow> JNull | Some d \<Rightarrow> JString d)\<rparr>)
       (enumerate 0 ranked)"


section \<open>Properties of the rate limiter\<close>

lemma script_step_refill_core:
  "script_step cfg entry t =
     (case redis_read t entry of
        None \<Rightarrow> refill_core (of_int (capacity cfg)) (of_int (capacity cfg)) t t (accrued cfg t t)
      | Some b \<Rightarrow> refill_core (of_int (capacity cfg)) (tokens b) (last_refill b) t
                   (accrued cfg (last_refill b) t))"
  by (simp add: script_step_def TOKEN_BUCKET_LUA_def refill_core_def accrued_def Let_def
           split: option.splits)

lemma refill_core_props:
  fixes cap tok x :: real and lr t :: int
  assumes cap: "0 \<le> cap" and tok: "0 \<le> tok" "tok \<le> cap" and x0: "0 \<le> x"
  defines "r \<equiv> refill_core cap tok lr t x"
  shows "0 \<le> tokens (snd r)" and "tokens (snd r) \<le> cap"
    and "last_refill (snd r) = (if \<lfloor>x\<rfloor> > 0 then t else lr)"
    and "expires_at (snd r) = Some (t + ttl_ms)"
    and "of_bool (fst r) + tokens (snd r) + (if \<lfloor>x\<rfloor> > 0 then 0 else x) \<le> tok + x"
    and "of_bool (fst r) + tokens (snd r) + (if \<lfloor>x\<rfloor> > 0 then 0 else x) < cap + 1"
proof -
  define n where "n = \<lfloor>x\<rfloor>"
  have fl: "real_of_int n \<le> x" unfolding n_def by (rule of_int_floor_le)
  have fl1: "x < real_of_int n + 1" unfolding n_def by linarith
  have fl0: "0 \<le> n" using x0 by (simp add: n_def)
  have r: "r = (let tokens1 = (if n > 0 then min cap (tok + of_int n) else tok);
                    lr1 = (if n > 0 then t else lr)
                in (tokens1 \<ge> 1,
                    \<lparr>tokens = (if tokens1 \<ge> 1 then tokens1 - 1 else tokens1), last_refill = lr1,
                     expires_at = Some (t + ttl_ms)\<rparr>))"
    unfolding r_def refill_core_def n_def ..
  show "0 \<le> tokens (snd r)"
    using cap tok fl0 unfolding r Let_def by (auto simp: min_def)
  show "tokens (snd r) \<le> cap"
    using cap tok fl0 unfolding r Let_def by (auto simp: min_def)
  show "last_refill (snd r) = (if \<lfloor>x\<rfloor> > 0 then t else lr)"
    unfolding r Let_def n_def by simp
  show "expires_at (snd r) = Some (t + ttl_ms)"
    unfolding r Let_def by simp
  show "of_bool (fst r) + tokens (snd r) + (if \<lfloor>x\<rfloor> > 0 then 0 else x) \<le> tok + x"
    unfolding n_def[symmetric]
  proof (cases "n > 0")
    case True
    then show "of_bool (fst r) + tokens (snd r) + (if n > 0 then 0 else x) \<le> tok + x"
      using cap tok fl unfolding r Let_def by (auto simp: min_def)
  next
    case False
    then show "of_bool (fst r) + tokens (snd r) + (if n > 0 then 0 else x) \<le> tok + x"
      using cap tok fl unfolding r Let_def by auto
  qed
  show "of_bool (fst r) + tokens (snd r) + (if \<lfloor>x\<rfloor> > 0 then 0 else x) < cap + 1"
    unfolding n_def[symmetric]
  proof (cases "n > 0")
    case True
    then show "of_bool (fst r) + tokens (snd r) + (if n > 0 then 0 else x) < cap + 1"
      using cap tok fl unfolding r Let_def by (auto simp: min_def)
  next
    case False
    then have "n = 0" using fl0 by linarith
    then have "x < 1" using fl1 by simp
    then show "of_bool (fst r) + tokens (snd r) + (if n > 0 then 0 else x) < cap + 1"
      using False cap tok unfolding r Let_def by auto
  qed
qed

lemma accrued_nonneg: "cfg_ok cfg \<Longrightarrow> lr \<le> t \<Longrightarrow> 0 \<le> accrued cfg lr t"
  by (simp add: accrued_def cfg_ok_def)

lemma accrued_add:
  "cfg_ok cfg \<Longrightarrow> accrued cfg lr t + accrued cfg t T = accrued cfg lr T"
  by (simp add: accrued_def cfg_ok_def field_simps)

lemma accrued_self: "accrued cfg t t = 0"
  by (simp add: accrued_def)

text \<open>One step from a key content within bounds.\<close>

lemma step_props:
  fixes cfg :: bucket_config and t :: int and entry :: "bucket_hash option"
  assumes ok: "cfg_ok cfg" and e: "entry_ok cfg t entry"
  defines "r \<equiv> script_step cfg entry t"
  shows "hash_ok cfg t (snd r)"
    and "expires_at (snd r) = Some (t + ttl_ms)"
    and "of_bool (fst r) + tokens (snd r) + accrued cfg (last_refill (snd r)) t
           < of_int (capacity cfg) + 1"
    and "redis_read t entry = Some b \<Longrightarrow>
           of_bool (fst r) + tokens (snd r) + accrued cfg (last_refill (snd r)) t
             \<le> tokens b + accrued cfg (last_refill b) t"
proof -
  have cap: "0 \<le> (of_int (capacity cfg) :: real)" using ok by (simp add: cfg_ok_def)
  show "hash_ok cfg t (snd r)"
  proof (cases "redis_read t entry")
    case None
    then have r: "r = refill_core (of_int (capacity cfg)) (of_int (capacity cfg)) t t (accrued cfg t t)"
      by (simp add: r_def script_step_refill_core)
    show ?thesis unfolding r hash_ok_def
      using refill_core_props(1,2,3)[OF cap cap order_refl, of "accrued cfg t t" t t]
      by (simp add: accrued_self)
  next
    case (Some b)
    then have eb: "entry = Some b" by (auto simp: redis_read_def split: option.splits if_splits)
    then have hb: "hash_ok cfg t b" using e by (simp add: entry_ok_def)
    have r: "r = refill_core (of_int (capacity cfg)) (tokens b) (last_refill b) t (accrued cfg (last_refill b) t)"
      using Some by (simp add: r_def script_step_refill_core)
    have x0: "0 \<le> accrued cfg (last_refill b) t"
      using accrued_nonneg[OF ok] hb by (simp add: hash_ok_def)
    show ?thesis unfolding r hash_ok_def
      using refill_core_props(1,2,3)[OF cap _ _ x0, of "tokens b" "last_refill b" t] hb
      by (simp add: hash_ok_def)
  qed
  show "expires_at (snd r) = Some (t + ttl_ms)"
    by (simp add: r_def script_step_refill_core refill_core_def Let_def split: option.splits)
  show "of_bool (fst r) + tokens (snd r) + accrued cfg (last_refill (snd r)) t
           < of_int (capacity cfg) + 1"
  proof (cases "redis_read t entry")
    case None
    then have r: "r = refill_core (of_int (capacity cfg)) (of_int (capacity cfg)) t t (accrued cfg t t)"
      by (simp add: r_def script_step_refill_core)
    show ?thesis unfolding r
      using refill_core_props(3,6)[OF cap cap order_refl, of "accrued cfg t t" t t]
      by (simp add: accrued_self)
  next
    case (Some b)
    then have eb: "entry = Some b" by (auto simp: redis_read_def split: option.splits if_splits)
    then have hb: "hash_ok cfg t b" using e by (simp add: entry_ok_def)
    have r: "r = refill_core (of_int (capacity cfg)) (tokens b) (last_refill b) t (accrued cfg (last_refill b) t)"
      using Some by (simp add: r_def script_step_refill_core)
    have x0: "0 \<le> accrued cfg (last_refill b) t"
      using accrued_nonneg[OF ok] hb by (simp add: hash_ok_def)
    show ?thesis unfolding r
      using refill_core_props(3,6)[OF cap _ _ x0, of "tokens b" "last_refill b" t] hb
      by (auto simp: hash_ok_def accrued_self split: if_splits)
  qed
  show "of_bool (fst r) + tokens (snd r) + accrued cfg (last_refill (snd r)) t
             \<le> tokens b + accrued cfg (last_refill b) t" if "redis_read t entry = Some b"
  proof -
    from that have eb: "entry = Some b" by (auto simp: redis_read_def split: option.splits if_splits)
    then have hb: "hash_ok cfg t b" using e by (simp add: entry_ok_def)
    have r: "r = refill_core (of_int (capacity cfg)) (tokens b) (last_refill b) t (accrued cfg (last_refill b) t)"
      using that by (simp add: r_def script_step_refill_core)
    have x0: "0 \<le> accrued cfg (last_refill b) t"
      using accrued_nonneg[OF ok] hb by (simp add: hash_ok_def)
    show ?thesis unfolding r
      using refill_core_props(3,5)[OF cap _ _ x0, of "tokens b" "last_refill b" t] hb
      by (auto simp: hash_ok_def accrued_self split: if_splits)
  qed
qed

lemma hash_ok_mono: "hash_ok cfg t b \<Longrightarrow> t \<le> t' \<Longrightarrow> hash_ok cfg t' b"
  by (auto simp: hash_ok_def)

lemma trace_times: "map fst (bucket_trace cfg entry ts) = ts"
  by (induction ts arbitrary: entry) auto

lemma run_credit:
  assumes ok: "cfg_ok cfg"
  shows "sorted (t0 # ts) \<Longrightarrow> hash_ok cfg t0 b \<Longrightarrow> expires_at b = Some (t0 + ttl_ms) \<Longrightarrow>
         \<forall>t\<in>set ts. t < t0 + ttl_ms \<and> t \<le> T \<Longrightarrow> t0 \<le> T \<Longrightarrow>
         real (length (filter snd (bucket_trace cfg (Some b) ts)))
           \<le> tokens b + accrued cfg (last_refill b) T"
proof (induction ts arbitrary: b t0)
  case Nil
  have "0 \<le> accrued cfg (last_refill b) T"
    using accrued_nonneg[OF ok] Nil.prems by (auto simp: hash_ok_def)
  then show ?case using Nil.prems by (simp add: hash_ok_def)
next
  case (Cons t ts)
  define r where "r = script_step cfg (Some b) t"
  have t0t: "t0 \<le> t" using Cons.prems(1) by simp
  have live: "redis_read t (Some b) = Some b"
    using Cons.prems by (simp add: redis_read_def)
  have eok: "entry_ok cfg t (Some b)"
    using hash_ok_mono[OF Cons.prems(2) t0t] by (simp add: entry_ok_def)
  note sp = step_props[OF ok eok, folded r_def]
  have tT: "t \<le> T" using Cons.prems by simp
  have "real (length (filter snd (bucket_trace cfg (Some (snd r)) ts)))
          \<le> tokens (snd r) + accrued cfg (last_refill (snd r)) T"
  proof (rule Cons.IH[of t])
    show "sorted (t # ts)" using Cons.prems(1) by simp
    show "hash_ok cfg t (snd r)" by (rule sp(1))
    show "expires_at (snd r) = Some (t + ttl_ms)" by (rule sp(2))
    show "\<forall>t'\<in>set ts. t' < t + ttl_ms \<and> t' \<le> T" using Cons.prems(4) t0t by auto
    show "t \<le> T" by (rule tT)
  qed
  moreover have "of_bool (fst r) + tokens (snd r) + accrued cfg (last_refill (snd r)) t
             \<le> tokens b + accrued cfg (last_refill b) t"
    by (rule sp(4)[OF live])
  moreover have "accrued cfg (last_refill (snd r)) t + accrued cfg t T = accrued cfg (last_refill (snd r)) T"
    by (rule accrued_add[OF ok])
  moreover have "accrued cfg (last_refill b) t + accrued cfg t T = accrued cfg (last_refill b) T"
    by (rule accrued_add[OF ok])
  moreover have "real (length (filter snd (bucket_trace cfg (Some b) (t # ts))))
      = of_bool (fst r) + real (length (filter snd (bucket_trace cfg (Some (snd r)) ts)))"
    by (simp add: r_def)
  ultimately show ?case by linarith
qed

lemma accrued_interval: "cfg_ok cfg \<Longrightarrow> accrued cfg t (t + intervalMs cfg) = of_int (refillRate cfg)"
  by (simp add: accrued_def cfg_ok_def)

lemma burst_bound:
  assumes ok: "cfg_ok cfg" and srt: "sorted (t1 # ts)" and e: "entry_ok cfg t1 entry"
    and near: "\<forall>t\<in>set ts. t < t1 + intervalMs cfg"
  shows "length (filter snd (bucket_trace cfg entry (t1 # ts))) \<le> nat (capacity cfg + refillRate cfg)"
proof -
  define r where "r = script_step cfg entry t1"
  define T where "T = t1 + intervalMs cfg"
  note sp = step_props[OF ok e, folded r_def]
  have ttl: "intervalMs cfg \<le> ttl_ms" "0 < intervalMs cfg" using ok by (auto simp: cfg_ok_def)
  have "real (length (filter snd (bucket_trace cfg (Some (snd r)) ts)))
          \<le> tokens (snd r) + accrued cfg (last_refill (snd r)) T"
  proof (rule run_credit[OF ok, of t1])
    show "sorted (t1 # ts)" by (rule srt)
    show "hash_ok cfg t1 (snd r)" by (rule sp(1))
    show "expires_at (snd r) = Some (t1 + ttl_ms)" by (rule sp(2))
    show "\<forall>t\<in>set ts. t < t1 + ttl_ms \<and> t \<le> T" using near ttl by (auto simp: T_def)
    show "t1 \<le> T" using ttl by (simp add: T_def)
  qed
  moreover have "accrued cfg (last_refill (snd r)) t1 + accrued cfg t1 T = accrued cfg (last_refill (snd r)) T"
    by (rule accrued_add[OF ok])
  moreover have "accrued cfg t1 T = of_int (refillRate cfg)"
    unfolding T_def by (rule accrued_interval[OF ok])
  moreover note sp(3)
  moreover have "real (length (filter snd (bucket_trace cfg entry (t1 # ts))))
      = of_bool (fst r) + real (length (filter snd (bucket_trace cfg (Some (snd r)) ts)))"
    by (simp add: r_def)
  ultimately have "real (length (filter snd (bucket_trace cfg entry (t1 # ts))))
      < of_int (capacity cfg + refillRate cfg) + 1" by simp
  then have "int (length (filter snd (bucket_trace cfg entry (t1 # ts)))) < capacity cfg + refillRate cfg + 1"
    by linarith
  then show ?thesis by linarith
qed

lemma window_prefix:
  "sorted ts \<Longrightarrow>
   allowed_in_window from len (bucket_trace cfg entry ts)
     \<le> length (filter snd (bucket_trace cfg entry (takeWhile (\<lambda>t. t < from + len) ts)))"
proof (induction ts arbitrary: entry)
  case Nil
  then show ?case by (simp add: allowed_in_window_def)
next
  case (Cons t ts)
  show ?case
  proof (cases "t < from + len")
    case True
    have "allowed_in_window from len (bucket_trace cfg (Some (snd (script_step cfg entry t))) ts)
        \<le> length (filter snd (bucket_trace cfg (Some (snd (script_step cfg entry t)))
                      (takeWhile (\<lambda>t. t < from + len) ts)))"
      using Cons.IH Cons.prems by simp
    then show ?thesis using True by (simp add: allowed_in_window_def)
  next
    case False
    have "\<forall>t'\<in>set (t # ts). \<not> t' < from + len" using False Cons.prems by auto
    then have "\<forall>p\<in>set (bucket_trace cfg entry (t # ts)). \<not> fst p < from + len"
      using trace_times[of cfg entry "t # ts"] by (metis (no_types, lifting) image_iff list.set_map)
    then have "filter (\<lambda>(t, ok). ok \<and> from \<le> t \<and> t < from + len) (bucket_trace cfg entry (t # ts)) = []"
      by (auto simp: filter_empty_conv)
    then show ?thesis unfolding allowed_in_window_def by simp
  qed
qed

lemma window_bound:
  assumes ok: "cfg_ok cfg"
  shows "sorted ts \<Longrightarrow> \<forall>t\<in>set ts. entry_ok cfg t entry \<Longrightarrow>
         allowed_in_window from (intervalMs cfg) (bucket_trace cfg entry ts)
           \<le> nat (capacity cfg + refillRate cfg)"
proof (induction ts arbitrary: entry)
  case Nil
  then show ?case by (simp add: allowed_in_window_def)
next
  case (Cons t ts)
  show ?case
  proof (cases "t < from")
    case True
    have e: "entry_ok cfg t entry" using Cons.prems by simp
    have h: "hash_ok cfg t (snd (script_step cfg entry t))" by (rule step_props(1)[OF ok e])
    have "\<forall>t'\<in>set ts. entry_ok cfg t' (Some (snd (script_step cfg entry t)))"
      using hash_ok_mono[OF h] Cons.prems(1) by (auto simp: entry_ok_def)
    then have "allowed_in_window from (intervalMs cfg)
                 (bucket_trace cfg (Some (snd (script_step cfg entry t))) ts)
               \<le> nat (capacity cfg + refillRate cfg)"
      using Cons.IH Cons.prems(1) by simp
    then show ?thesis using True by (simp add: allowed_in_window_def)
  next
    case False
    let ?mid = "takeWhile (\<lambda>t'. t' < from + intervalMs cfg) (t # ts)"
    have le: "allowed_in_window from (intervalMs cfg) (bucket_trace cfg entry (t # ts))
        \<le> length (filter snd (bucket_trace cfg entry ?mid))"
      by (rule window_prefix[OF Cons.prems(1)])
    show ?thesis
    proof (cases "t < from + intervalMs cfg")
      case T2: True
      then have mid: "?mid = t # takeWhile (\<lambda>t'. t' < from + intervalMs cfg) ts" by simp
      have "length (filter snd (bucket_trace cfg entry (t # takeWhile (\<lambda>t'. t' < from + intervalMs cfg) ts)))
              \<le> nat (capacity cfg + refillRate cfg)"
      proof (rule burst_bound[OF ok])
        have "sorted (takeWhile (\<lambda>t'. t' < from + intervalMs cfg) (t # ts))"
          using Cons.prems(1) by (rule sorted_takeWhile)
        then show "sorted (t # takeWhile (\<lambda>t'. t' < from + intervalMs cfg) ts)" using T2 by simp
        show "entry_ok cfg t entry" using Cons.prems by simp
        show "\<forall>t'\<in>set (takeWhile (\<lambda>t'. t' < from + intervalMs cfg) ts). t' < t + intervalMs cfg"
          using False by (auto dest: set_takeWhileD)
      qed
      then show ?thesis using le mid by simp
    next
      case F2: False
      then show ?thesis using le by simp
    qed
  qed
qed

lemma after_ok:
  assumes ok: "cfg_ok cfg"
  shows "sorted ts \<Longrightarrow> ts \<noteq> [] \<Longrightarrow> \<forall>t\<in>set ts. entry_ok cfg t entry \<Longrightarrow>
         entry_ok cfg (last ts) (bucket_after cfg entry ts)"
proof (induction ts arbitrary: entry)
  case Nil
  then show ?case by simp
next
  case (Cons t ts)
  have e: "entry_ok cfg t entry" using Cons.prems by simp
  have h: "hash_ok cfg t (snd (script_step cfg entry t))" by (rule step_props(1)[OF ok e])
  show ?case
  proof (cases "ts = []")
    case True
    then show ?thesis using h by (simp add: entry_ok_def)
  next
    case False
    have "\<forall>t'\<in>set ts. entry_ok cfg t' (Some (snd (script_step cfg entry t)))"
      using hash_ok_mono[OF h] Cons.prems(1) by (auto simp: entry_ok_def)
    then show ?thesis using Cons.IH[OF _ False] Cons.prems(1) False by simp
  qed
qed

text \<open>
  Claim C1, as the code has it. The limiter is a token bucket, which admits a burst of the
  stored tokens on top of what is refilled meanwhile: for a bucket run through the Lua
  script at non-decreasing times, from a key content within its bounds, with a positive
  refill rate and an interval no longer than the key's expiry, the number of
  \<open>allowed\<close> results in any window of length \<open>intervalMs\<close> is at most
  \<open>capacity + refillRate\<close> (not \<open>capacity\<close>), and every step keeps
  \<open>0 \<le> tokens \<le> capacity\<close> and \<open>last_refill\<close> no later than the clock.
\<close>

theorem token_bucket_window_bound:
  assumes "cfg_ok cfg" and "sorted ts" and "\<forall>t\<in>set ts. entry_ok cfg t entry"
  shows "allowed_in_window from (intervalMs cfg) (bucket_trace cfg entry ts)
           \<le> nat (capacity cfg + refillRate cfg)
         \<and> (ts \<noteq> [] \<longrightarrow> entry_ok cfg (last ts) (bucket_after cfg entry ts))"
  using window_bound[OF assms(1,2,3)] after_ok[OF assms(1,2) _ assms(3)] by blast

theorem token_bucket_window_bound_witness:
  "cfg_ok (perSecond default_rateLimiting) \<and> sorted [1000, 1001, 1500, 1999 :: int]
   \<and> entry_ok (perSecond default_rateLimiting) 1000 None
   \<and> entry_ok (perSecond default_rateLimiting) 1001 None
   \<and> entry_ok (perSecond default_rateLimiting) 1500 None
   \<and> entry_ok (perSecond default_rateLimiting) 1999 None
   \<and> allowed_in_window 1000 (intervalMs (perSecond default_rateLimiting))
        (bucket_trace (perSecond default_rateLimiting) None [1000, 1001, 1500, 1999]) \<le> 4
   \<and> entry_ok (perSecond default_rateLimiting) 1999
        (bucket_after (perSecond default_rateLimiting) None [1000, 1001, 1500, 1999])"
  using token_bucket_window_bound [of "perSecond default_rateLimiting" "[1000, 1001, 1500, 1999]" None 1000]
  by (simp add: cfg_ok_def entry_ok_def default_rateLimiting_def ttl_ms_def)

text \<open>
  The claim as stated fails: a fresh per-second bucket (capacity 2, refill 2 per 1000 ms)
  allows the requests at 1000, 1001 and 1500 ms, three within one window of 1000 ms.
\<close>

theorem token_bucket_window_counterexample:
  "\<not> allowed_in_window 1000 (intervalMs (perSecond default_rateLimiting))
        (bucket_trace (perSecond default_rateLimiting) None [1000, 1001, 1500])
      \<le> nat (capacity (perSecond default_rateLimiting))"
  by (simp add: allowed_in_window_def script_step_def TOKEN_BUCKET_LUA_def default_rateLimiting_def
        redis_read_def Let_def ttl_ms_def lua_to_integer_def)

lemma script_reply:
  assumes pos: "0 < refillRate cfg" "0 < intervalMs cfg"
    and run: "TOKEN_BUCKET_LUA entry (capacity cfg) (refillRate cfg) (intervalMs cfg) 1 t = ((r0, r1, r2), written)"
  shows "r0 = 1 \<longrightarrow> r2 = 0"
    and "r0 \<noteq> 1 \<longrightarrow> r2 = bucket_wait cfg (tokens written) \<and> 0 \<le> r2"
proof -
  show "r0 = 1 \<longrightarrow> r2 = 0"
    using run by (auto simp: TOKEN_BUCKET_LUA_def Let_def split: if_splits)
  show "r0 \<noteq> 1 \<longrightarrow> r2 = bucket_wait cfg (tokens written) \<and> 0 \<le> r2"
  proof
    assume n1: "r0 \<noteq> 1"
    from run n1 have w: "r2 = bucket_wait cfg (tokens written)" and lt: "tokens written < 1"
      by (auto simp: TOKEN_BUCKET_LUA_def Let_def bucket_wait_def split: if_splits)
    have "0 < ((1 - tokens written) / of_int (refillRate cfg)) * of_int (intervalMs cfg)"
      using lt pos by simp
    then have "0 < bucket_wait cfg (tokens written)" unfolding bucket_wait_def by linarith
    then show "r2 = bucket_wait cfg (tokens written) \<and> 0 \<le> r2" using w by simp
  qed
qed

lemma checkBucketStandard_reply:
  assumes pos: "0 < refillRate cfg" "0 < intervalMs cfg"
  shows "checkBucketStandard errs cfg t entry = Inr (res, written) \<Longrightarrow>
         (allowed res \<longrightarrow> waitTimeMs res = 0)
         \<and> (\<not> allowed res \<longrightarrow> waitTimeMs res = bucket_wait cfg (tokens written) \<and> 0 \<le> waitTimeMs res)"
proof (induction errs)
  case Nil
  obtain r0 r1 r2 w where run:
    "TOKEN_BUCKET_LUA entry (capacity cfg) (refillRate cfg) (intervalMs cfg) 1 t = ((r0, r1, r2), w)"
    by (metis prod_cases3 surj_pair)
  with Nil have res: "res = \<lparr>allowed = (r0 = 1), waitTimeMs = r2, tokensRemaining = of_int r1\<rparr>"
    and w: "written = w" by auto
  show ?case using script_reply[OF pos run] by (auto simp: res w)
next
  case (Cons e errs)
  then show ?case by (auto split: if_splits)
qed

lemma checkBucketUpstash_reply:
  assumes pos: "0 < refillRate cfg" "0 < intervalMs cfg"
    and run: "checkBucketUpstash d fault cfg t entry = (res, entry')"
  shows "allowed res \<longrightarrow> waitTimeMs res = 0"
    and "\<not> allowed res \<longrightarrow>
           (\<exists>b. entry' = Some b \<and> waitTimeMs res = bucket_wait cfg (tokens b) \<and> 0 \<le> waitTimeMs res)"
proof -
  show "allowed res \<longrightarrow> waitTimeMs res = 0"
    using run by (auto simp: checkBucketUpstash_def Let_def split: if_splits)
  show "\<not> allowed res \<longrightarrow>
           (\<exists>b. entry' = Some b \<and> waitTimeMs res = bucket_wait cfg (tokens b) \<and> 0 \<le> waitTimeMs res)"
  proof
    assume na: "\<not> allowed res"
    from run na obtain b where b: "entry' = Some b" and w: "waitTimeMs res = bucket_wait cfg (tokens b)"
      and lt: "tokens b < 1"
      by (auto simp: checkBucketUpstash_def Let_def bucket_wait_def split: if_splits)
    have "0 < ((1 - tokens b) / of_int (refillRate cfg)) * of_int (intervalMs cfg)"
      using lt pos by simp
    then have "0 < bucket_wait cfg (tokens b)" unfolding bucket_wait_def by linarith
    then show "\<exists>b. entry' = Some b \<and> waitTimeMs res = bucket_wait cfg (tokens b) \<and> 0 \<le> waitTimeMs res"
      using b w by simp
  qed
qed

lemma checkBucket_reply:
  assumes pos: "0 < refillRate cfg" "0 < intervalMs cfg"
    and run: "checkBucket be n cfg env store = (Inr res, store')"
  shows "\<forall>m. m \<noteq> n \<longrightarrow> store' m = store m"
    and "allowed res \<longrightarrow> waitTimeMs res = 0"
    and "\<not> allowed res \<longrightarrow>
           (\<exists>b. store' n = Some b \<and> waitTimeMs res = bucket_wait cfg (tokens b) \<and> 0 \<le> waitTimeMs res)"
proof -
  show "\<forall>m. m \<noteq> n \<longrightarrow> store' m = store m"
    using run by (auto simp: checkBucket_def split: backend.splits prod.splits sum.splits)
  show "allowed res \<longrightarrow> waitTimeMs res = 0"
  proof (cases be)
    case Standard
    with run obtain w where "checkBucketStandard (evalsha_errors env) cfg (clock env) (store n) = Inr (res, w)"
      by (auto simp: checkBucket_def split: sum.splits prod.splits)
    then show ?thesis using checkBucketStandard_reply[OF pos] by blast
  next
    case (Upstash d)
    with run obtain e' where "checkBucketUpstash d (upstash_fault env) cfg (clock env) (store n) = (res, e')"
      by (auto simp: checkBucket_def split: prod.splits)
    then show ?thesis using checkBucketUpstash_reply(1)[OF pos] by blast
  qed
  show "\<not> allowed res \<longrightarrow>
           (\<exists>b. store' n = Some b \<and> waitTimeMs res = bucket_wait cfg (tokens b) \<and> 0 \<le> waitTimeMs res)"
  proof (cases be)
    case Standard
    with run obtain w where c: "checkBucketStandard (evalsha_errors env) cfg (clock env) (store n) = Inr (res, w)"
      and s: "store' = store(n \<mapsto> w)"
      by (auto simp: checkBucket_def split: sum.splits prod.splits)
    show ?thesis using checkBucketStandard_reply[OF pos c] s by auto
  next
    case (Upstash d)
    with run obtain e' where c: "checkBucketUpstash d (upstash_fault env) cfg (clock env) (store n) = (res, e')"
      and s: "store' = store(n := e')"
      by (auto simp: checkBucket_def split: prod.splits)
    show ?thesis using checkBucketUpstash_reply(2)[OF pos c] s by auto
  qed
qed

lemma acquireToken_unfold:
  assumes run: "acquireToken be rl (e1, e2, e3) store = (Inr r, store')"
  obtains r1 r2 r3 s1 s2 where
    "checkBucket be per_second (perSecond rl) e1 store = (Inr r1, s1)"
    "checkBucket be per_minute (perMinute rl) e2 s1 = (Inr r2, s2)"
    "checkBucket be per_hour (perHour rl) e3 s2 = (Inr r3, store')"
    "bucketStates r = [per_second \<mapsto> r1, per_minute \<mapsto> r2, per_hour \<mapsto> r3]"
    "allowed r = (allowed r1 \<and> allowed r2 \<and> allowed r3)"
    "waitTimeMs r = max (max (max 0 (if allowed r1 then 0 else waitTimeMs r1))
                              (if allowed r2 then 0 else waitTimeMs r2))
                         (if allowed r3 then 0 else waitTimeMs r3)"
proof -
  obtain R1 s1 where c1: "checkBucket be per_second (perSecond rl) e1 store = (R1, s1)" by fastforce
  obtain r1 where R1: "R1 = Inr r1" using run c1
    by (cases R1) (auto simp: acquireToken_def)
  obtain R2 s2 where c2: "checkBucket be per_minute (perMinute rl) e2 s1 = (R2, s2)" by fastforce
  obtain r2 where R2: "R2 = Inr r2" using run c1 R1 c2
    by (cases R2) (auto simp: acquireToken_def split: if_splits)
  obtain R3 s3 where c3: "checkBucket be per_hour (perHour rl) e3 s2 = (R3, s3)" by fastforce
  obtain r3 where R3: "R3 = Inr r3" using run c1 R1 c2 R2 c3
    by (cases R3) (auto simp: acquireToken_def split: if_splits)
  have s3: "s3 = store'" using run c1 R1 c2 R2 c3 R3
    by (auto simp: acquireToken_def split: if_splits)
  have bs: "bucketStates r = [per_second \<mapsto> r1, per_minute \<mapsto> r2, per_hour \<mapsto> r3]"
    using run c1 R1 c2 R2 c3 R3 by (auto simp: acquireToken_def split: if_splits)
  have al: "allowed r = (allowed r1 \<and> allowed r2 \<and> allowed r3)"
    using run c1 R1 c2 R2 c3 R3 by (auto simp: acquireToken_def split: if_splits)
  have wt: "waitTimeMs r = max (max (max 0 (if allowed r1 then 0 else waitTimeMs r1))
                              (if allowed r2 then 0 else waitTimeMs r2))
                         (if allowed r3 then 0 else waitTimeMs r3)"
    using run c1 R1 c2 R2 c3 R3 by (auto simp: acquireToken_def split: if_splits)
  show thesis using that[OF c1[unfolded R1] c2[unfolded R2] c3[unfolded R3 s3] bs al wt] .
qed

lemma acquireToken_general:
  assumes pos: "positive_rates rl" and run: "acquireToken be rl envs store = (Inr r, store')"
  shows "(\<forall>n. bucketStates r n \<noteq> None)
       \<and> (allowed r \<longleftrightarrow> (\<forall>n. allowed (the (bucketStates r n))))
       \<and> (\<not> allowed r \<longrightarrow>
            waitTimeMs r = max (waitTimeMs (the (bucketStates r per_second)))
                             (max (waitTimeMs (the (bucketStates r per_minute)))
                                  (waitTimeMs (the (bucketStates r per_hour)))))
       \<and> (\<forall>n. \<not> allowed (the (bucketStates r n)) \<longrightarrow>
            (\<exists>b. store' n = Some b
                \<and> waitTimeMs (the (bucketStates r n)) = bucket_wait (bucket_cfg rl n) (tokens b)))"
proof -
  obtain e1 e2 e3 where envs: "envs = (e1, e2, e3)" by (cases envs) auto
  have p1: "0 < refillRate (perSecond rl)" "0 < intervalMs (perSecond rl)"
    using pos[unfolded positive_rates_def, rule_format, of per_second] by (simp_all add: bucket_cfg_def)
  have p2: "0 < refillRate (perMinute rl)" "0 < intervalMs (perMinute rl)"
    using pos[unfolded positive_rates_def, rule_format, of per_minute] by (simp_all add: bucket_cfg_def)
  have p3: "0 < refillRate (perHour rl)" "0 < intervalMs (perHour rl)"
    using pos[unfolded positive_rates_def, rule_format, of per_hour] by (simp_all add: bucket_cfg_def)
  from run[unfolded envs] obtain r1 r2 r3 s1 s2 where
    c1: "checkBucket be per_second (perSecond rl) e1 store = (Inr r1, s1)" and
    c2: "checkBucket be per_minute (perMinute rl) e2 s1 = (Inr r2, s2)" and
    c3: "checkBucket be per_hour (perHour rl) e3 s2 = (Inr r3, store')" and
    bs: "bucketStates r = [per_second \<mapsto> r1, per_minute \<mapsto> r2, per_hour \<mapsto> r3]" and
    al: "allowed r = (allowed r1 \<and> allowed r2 \<and> allowed r3)" and
    wt: "waitTimeMs r = max (max (max 0 (if allowed r1 then 0 else waitTimeMs r1))
                              (if allowed r2 then 0 else waitTimeMs r2))
                         (if allowed r3 then 0 else waitTimeMs r3)"
    by (rule acquireToken_unfold)
  note k1 = checkBucket_reply[OF p1 c1]
  note k2 = checkBucket_reply[OF p2 c2]
  note k3 = checkBucket_reply[OF p3 c3]
  have b1: "the (bucketStates r per_second) = r1" by (simp add: bs)
  have b2: "the (bucketStates r per_minute) = r2" by (simp add: bs)
  have b3: "the (bucketStates r per_hour) = r3" by (simp add: bs)
  have st1: "store' per_second = s1 per_second" using k2(1) k3(1) by simp
  have st2: "store' per_minute = s2 per_minute" using k3(1) by simp
  have A: "\<forall>n. bucketStates r n \<noteq> None"
  proof
    fix n show "bucketStates r n \<noteq> None" by (cases n) (simp_all add: bs)
  qed
  have B: "allowed r \<longleftrightarrow> (\<forall>n. allowed (the (bucketStates r n)))"
  proof
    assume a: "allowed r"
    show "\<forall>n. allowed (the (bucketStates r n))"
    proof
      fix n show "allowed (the (bucketStates r n))"
        using a al by (cases n) (simp_all add: b1 b2 b3)
    qed
  next
    assume "\<forall>n. allowed (the (bucketStates r n))"
    then have "allowed r1" "allowed r2" "allowed r3"
      using b1 b2 b3 by metis+
    then show "allowed r" using al by simp
  qed
  have w1: "0 \<le> waitTimeMs r1" using k1(2,3) by (cases "allowed r1") auto
  have w2: "0 \<le> waitTimeMs r2" using k2(2,3) by (cases "allowed r2") auto
  have w3: "0 \<le> waitTimeMs r3" using k3(2,3) by (cases "allowed r3") auto
  have C: "waitTimeMs r = max (waitTimeMs r1) (max (waitTimeMs r2) (waitTimeMs r3))"
    using wt w1 w2 w3 k1(2) k2(2) k3(2) by (auto simp: max_def)
  have D: "\<forall>n. \<not> allowed (the (bucketStates r n)) \<longrightarrow>
            (\<exists>b. store' n = Some b
                \<and> waitTimeMs (the (bucketStates r n)) = bucket_wait (bucket_cfg rl n) (tokens b))"
  proof (intro allI impI)
    fix n assume na: "\<not> allowed (the (bucketStates r n))"
    show "\<exists>b. store' n = Some b
                \<and> waitTimeMs (the (bucketStates r n)) = bucket_wait (bucket_cfg rl n) (tokens b)"
    proof (cases n)
      case per_second
      then show ?thesis using na k1(3) st1 by (auto simp: b1 bucket_cfg_def)
    next
      case per_minute
      then show ?thesis using na k2(3) st2 by (auto simp: b2 bucket_cfg_def)
    next
      case per_hour
      then show ?thesis using na k3(3) by (auto simp: b3 bucket_cfg_def)
    qed
  qed
  show ?thesis using A B C D by (simp add: b1 b2 b3)
qed

text \<open>The standard backend without faults, bucket by bucket.\<close>

lemma acquire_calm:
  fixes rl :: rate_limiting and store :: redis
  defines "L n t \<equiv> TOKEN_BUCKET_LUA (store n) (capacity (bucket_cfg rl n))
                      (refillRate (bucket_cfg rl n)) (intervalMs (bucket_cfg rl n)) 1 t"
  shows "reply_of (fst (acquireToken Standard rl (at_time t1, at_time t2, at_time t3) store))
         = Some (fst (fst (L per_second t1)) = 1 \<and> fst (fst (L per_minute t2)) = 1
                   \<and> fst (fst (L per_hour t3)) = 1,
                 max (max (max 0 (if fst (fst (L per_second t1)) = 1 then 0
                                  else snd (snd (fst (L per_second t1)))))
                          (if fst (fst (L per_minute t2)) = 1 then 0
                           else snd (snd (fst (L per_minute t2)))))
                     (if fst (fst (L per_hour t3)) = 1 then 0
                      else snd (snd (fst (L per_hour t3)))))"
    and "snd (acquireToken Standard rl (at_time t1, at_time t2, at_time t3) store)
         = store(per_second \<mapsto> snd (L per_second t1), per_minute \<mapsto> snd (L per_minute t2),
                 per_hour \<mapsto> snd (L per_hour t3))"
  unfolding L_def
  by (simp_all add: acquireToken_def checkBucket_def at_time_def reply_of_def bucket_cfg_def
        split: prod.splits)

lemma lua_fresh:
  assumes "1 \<le> capacity cfg"
  shows "TOKEN_BUCKET_LUA None (capacity cfg) (refillRate cfg) (intervalMs cfg) 1 t
         = ((1, capacity cfg - 1, 0),
            \<lparr>tokens = of_int (capacity cfg) - 1, last_refill = t, expires_at = Some (t + ttl_ms)\<rparr>)"
proof -
  have "lua_to_integer (real_of_int (capacity cfg) - 1) = capacity cfg - 1"
  proof -
    have "real_of_int (capacity cfg) - 1 = real_of_int (capacity cfg - 1)" by simp
    then show ?thesis using assms unfolding lua_to_integer_def by (simp only: floor_of_int) simp
  qed
  then show ?thesis using assms
    by (simp add: TOKEN_BUCKET_LUA_def redis_read_def Let_def)
qed

lemma lua_is_core:
  "TOKEN_BUCKET_LUA entry (capacity cfg) (refillRate cfg) (intervalMs cfg) 1 t =
     (case redis_read t entry of
        None \<Rightarrow> lua_core cfg (of_int (capacity cfg)) t t (accrued cfg t t)
      | Some b \<Rightarrow> lua_core cfg (tokens b) (last_refill b) t (accrued cfg (last_refill b) t))"
  by (simp add: TOKEN_BUCKET_LUA_def lua_core_def accrued_def bucket_wait_def Let_def
           split: option.splits)

lemma lua_no_refill:
  assumes live: "expires_at b = Some e" "t < e" and lr: "last_refill b \<le> t"
    and pos: "0 < refillRate cfg" "0 < intervalMs cfg"
    and small: "(t - last_refill b) * refillRate cfg < intervalMs cfg"
  shows "TOKEN_BUCKET_LUA (Some b) (capacity cfg) (refillRate cfg) (intervalMs cfg) 1 t
         = (if 1 \<le> tokens b
            then ((1, lua_to_integer (tokens b - 1), 0),
                  \<lparr>tokens = tokens b - 1, last_refill = last_refill b,
                   expires_at = Some (t + ttl_ms)\<rparr>)
            else ((0, lua_to_integer (tokens b), bucket_wait cfg (tokens b)),
                  \<lparr>tokens = tokens b, last_refill = last_refill b,
                   expires_at = Some (t + ttl_ms)\<rparr>))"
proof -
  have "real_of_int ((t - last_refill b) * refillRate cfg) < real_of_int (intervalMs cfg)"
    using small by (simp only: of_int_less_iff)
  then have "accrued cfg (last_refill b) t < 1" using pos by (simp add: accrued_def field_simps)
  moreover have "0 \<le> accrued cfg (last_refill b) t" using lr pos by (simp add: accrued_def)
  ultimately have fl: "\<lfloor>accrued cfg (last_refill b) t\<rfloor> = 0" by (simp add: floor_eq_iff)
  have rd: "redis_read t (Some b) = Some b" using live by (simp add: redis_read_def)
  show ?thesis
    by (simp add: lua_is_core rd lua_core_def fl Let_def)
qed

lemma lua_allows:
  assumes ok: "cfg_ok cfg" and e: "entry_ok cfg t entry" and k: "1 \<le> k" "k \<le> capacity cfg"
    and tok: "\<forall>b. entry = Some b \<longrightarrow> of_int k \<le> tokens b"
  defines "L \<equiv> TOKEN_BUCKET_LUA entry (capacity cfg) (refillRate cfg) (intervalMs cfg) 1 t"
  shows "fst (fst L) = 1" and "snd (snd (fst L)) = 0" and "hash_ok cfg t (snd L)"
    and "of_int k - 1 \<le> tokens (snd L)"
proof -
  have st: "script_step cfg entry t = (fst (fst L) = 1, snd L)"
    by (simp add: script_step_def L_def split: prod.splits)
  have cap: "0 \<le> (of_int (capacity cfg) :: real)" using ok by (simp add: cfg_ok_def)
  have kc: "real_of_int k \<le> of_int (capacity cfg)" using k by simp
  have k1: "1 \<le> real_of_int k" using k by simp
  have core: "fst (refill_core (of_int (capacity cfg)) tok lr t x)
              \<and> real_of_int k - 1 \<le> tokens (snd (refill_core (of_int (capacity cfg)) tok lr t x))"
    if "real_of_int k \<le> tok" for tok lr x
  proof -
    define n where "n = \<lfloor>x\<rfloor>"
    have "0 < n \<Longrightarrow> 1 \<le> real_of_int n" by simp
    then show ?thesis
      using that kc k1 unfolding refill_core_def Let_def n_def[symmetric]
      by (auto simp: min_def)
  qed
  have both: "fst (script_step cfg entry t) \<and> real_of_int k - 1 \<le> tokens (snd (script_step cfg entry t))"
  proof (cases "redis_read t entry")
    case None
    then show ?thesis using core[OF kc] by (simp add: script_step_refill_core)
  next
    case (Some b)
    then have "entry = Some b" by (auto simp: redis_read_def split: option.splits if_splits)
    then have "real_of_int k \<le> tokens b" using tok by simp
    then show ?thesis using core Some by (simp add: script_step_refill_core)
  qed
  show a: "fst (fst L) = 1" using both st by simp
  show "of_int k - 1 \<le> tokens (snd L)" using both st by simp
  show "hash_ok cfg t (snd L)" using step_props(1)[OF ok e] st by simp
  have pos: "0 < refillRate cfg" "0 < intervalMs cfg" using ok by (auto simp: cfg_ok_def)
  obtain r0 r1 r2 w where Leq: "L = ((r0, r1, r2), w)" by (metis prod_cases3 surj_pair)
  show "snd (snd (fst L)) = 0"
    using script_reply(1)[OF pos Leq[unfolded L_def]] a by (simp add: Leq)
qed

lemma three_allowed:
  fixes cfg :: bucket_config and a b c :: int
  assumes ok: "cfg_ok cfg" and cap: "3 \<le> capacity cfg" and ord: "a \<le> b" "b \<le> c"
  defines "lua e t \<equiv> TOKEN_BUCKET_LUA e (capacity cfg) (refillRate cfg) (intervalMs cfg) 1 t"
  defines "w1 \<equiv> snd (lua None a)"
  defines "w2 \<equiv> snd (lua (Some w1) b)"
  shows "fst (fst (lua None a)) = 1" and "fst (fst (lua (Some w1) b)) = 1"
    and "fst (fst (lua (Some w2) c)) = 1"
proof -
  have e0: "entry_ok cfg a None" by (simp add: entry_ok_def)
  note s1 = lua_allows[OF ok e0, of "capacity cfg", folded lua_def, folded w1_def]
  have k1: "1 \<le> capacity cfg" using cap by simp
  show "fst (fst (lua None a)) = 1" using s1(1) k1 by simp
  have h1: "hash_ok cfg a w1" using s1(3) k1 by simp
  have t1: "real_of_int (capacity cfg - 1) \<le> tokens w1" using s1(4) k1 by simp
  have e1: "entry_ok cfg b (Some w1)" using hash_ok_mono[OF h1 ord(1)] by (simp add: entry_ok_def)
  note s2 = lua_allows[OF ok e1, of "capacity cfg - 1", folded lua_def, folded w2_def]
  have k2: "1 \<le> capacity cfg - 1" "capacity cfg - 1 \<le> capacity cfg" using cap by simp_all
  show "fst (fst (lua (Some w1) b)) = 1" using s2(1)[OF k2] t1 by simp
  have h2: "hash_ok cfg b w2" using s2(3)[OF k2] t1 by simp
  have t2: "real_of_int (capacity cfg - 2) \<le> tokens w2" using s2(4)[OF k2] t1 by simp
  have e2: "entry_ok cfg c (Some w2)" using hash_ok_mono[OF h2 ord(2)] by (simp add: entry_ok_def)
  have k3: "1 \<le> capacity cfg - 2" "capacity cfg - 2 \<le> capacity cfg" using cap by simp_all
  show "fst (fst (lua (Some w2) c)) = 1"
    using lua_allows(1)[OF ok e2 k3, folded lua_def] t2 by simp
qed

lemma per_second_three:
  fixes a b c :: int
  assumes ord: "a \<le> b" "b \<le> c" "c < a + 500"
  defines "cfg \<equiv> perSecond default_rateLimiting"
  defines "lua e t \<equiv> TOKEN_BUCKET_LUA e (capacity cfg) (refillRate cfg) (intervalMs cfg) 1 t"
  defines "w1 \<equiv> snd (lua None a)"
  defines "w2 \<equiv> snd (lua (Some w1) b)"
  shows "fst (fst (lua None a)) = 1" and "fst (fst (lua (Some w1) b)) = 1"
    and "fst (lua (Some w2) c) = (0, 0, 500)"
proof -
  have cfg: "capacity cfg = 2" "refillRate cfg = 2" "intervalMs cfg = 1000"
    by (simp_all add: cfg_def default_rateLimiting_def)
  have l1: "lua None a = ((1, 1, 0), \<lparr>tokens = 1, last_refill = a, expires_at = Some (a + ttl_ms)\<rparr>)"
    unfolding lua_def using lua_fresh[of cfg a] by (simp add: cfg)
  show "fst (fst (lua None a)) = 1" by (simp add: l1)
  have w1: "w1 = \<lparr>tokens = 1, last_refill = a, expires_at = Some (a + ttl_ms)\<rparr>"
    by (simp add: w1_def l1)
  have l2: "lua (Some w1) b = ((1, 0, 0), \<lparr>tokens = 0, last_refill = a, expires_at = Some (b + ttl_ms)\<rparr>)"
    unfolding lua_def
    by (subst lua_no_refill[where e = "a + ttl_ms"])
       (use ord in \<open>simp_all add: w1 cfg ttl_ms_def lua_to_integer_def\<close>)
  show "fst (fst (lua (Some w1) b)) = 1" by (simp add: l2)
  have w2: "w2 = \<lparr>tokens = 0, last_refill = a, expires_at = Some (b + ttl_ms)\<rparr>"
    by (simp add: w2_def l2)
  have bw: "bucket_wait cfg 0 = 500" by (simp add: bucket_wait_def cfg)
  show "fst (lua (Some w2) c) = (0, 0, 500)"
    unfolding lua_def
    by (subst lua_no_refill[where e = "b + ttl_ms"])
       (use ord bw in \<open>simp_all add: w2 cfg ttl_ms_def lua_to_integer_def\<close>)
qed

lemma default_cfg_ok:
  "cfg_ok (perSecond default_rateLimiting)" "cfg_ok (perMinute default_rateLimiting)"
  "cfg_ok (perHour default_rateLimiting)"
  by (simp_all add: cfg_ok_def default_rateLimiting_def ttl_ms_def)

lemma three_acquires:
  fixes a1 a2 a3 b1 b2 b3 c1 c2 c3 :: int
  assumes o1: "a1 \<le> b1" "b1 \<le> c1" "c1 < a1 + 500"
    and o2: "a2 \<le> b2" "b2 \<le> c2" and o3: "a3 \<le> b3" "b3 \<le> c3"
  shows "map reply_of
           (acquire_many Standard default_rateLimiting (\<lambda>n. None)
              [(at_time a1, at_time a2, at_time a3), (at_time b1, at_time b2, at_time b3),
               (at_time c1, at_time c2, at_time c3)])
         = [Some (True, 0), Some (True, 0), Some (False, 500)]"
proof -
  define rl where "rl = default_rateLimiting"
  define s0 :: redis where "s0 = (\<lambda>n. None)"
  define s1 where "s1 = snd (acquireToken Standard rl (at_time a1, at_time a2, at_time a3) s0)"
  define s2 where "s2 = snd (acquireToken Standard rl (at_time b1, at_time b2, at_time b3) s1)"
  have bc: "bucket_cfg rl per_second = perSecond default_rateLimiting"
    "bucket_cfg rl per_minute = perMinute default_rateLimiting"
    "bucket_cfg rl per_hour = perHour default_rateLimiting"
    by (simp_all add: bucket_cfg_def rl_def)
  have caps: "3 \<le> capacity (perMinute default_rateLimiting)" "3 \<le> capacity (perHour default_rateLimiting)"
    by (simp_all add: default_rateLimiting_def)
  note S = per_second_three[OF o1]
  note M = three_allowed[OF default_cfg_ok(2) caps(1) o2]
  note H = three_allowed[OF default_cfg_ok(3) caps(2) o3]
  have s1: "s1 = s0(per_second \<mapsto> snd (TOKEN_BUCKET_LUA None (capacity (perSecond default_rateLimiting))
                      (refillRate (perSecond default_rateLimiting)) (intervalMs (perSecond default_rateLimiting)) 1 a1),
                    per_minute \<mapsto> snd (TOKEN_BUCKET_LUA None (capacity (perMinute default_rateLimiting))
                      (refillRate (perMinute default_rateLimiting)) (intervalMs (perMinute default_rateLimiting)) 1 a2),
                    per_hour \<mapsto> snd (TOKEN_BUCKET_LUA None (capacity (perHour default_rateLimiting))
                      (refillRate (perHour default_rateLimiting)) (intervalMs (perHour default_rateLimiting)) 1 a3))"
    unfolding s1_def acquire_calm(2) bc by (simp add: s0_def)
  have r1: "reply_of (fst (acquireToken Standard rl (at_time a1, at_time a2, at_time a3) s0)) = Some (True, 0)"
    unfolding acquire_calm(1) bc using S(1) M(1) H(1) by (simp add: s0_def)
  have s2: "s2 per_second = Some (snd (TOKEN_BUCKET_LUA (s1 per_second) (capacity (perSecond default_rateLimiting))
                      (refillRate (perSecond default_rateLimiting)) (intervalMs (perSecond default_rateLimiting)) 1 b1))"
    "s2 per_minute = Some (snd (TOKEN_BUCKET_LUA (s1 per_minute) (capacity (perMinute default_rateLimiting))
                      (refillRate (perMinute default_rateLimiting)) (intervalMs (perMinute default_rateLimiting)) 1 b2))"
    "s2 per_hour = Some (snd (TOKEN_BUCKET_LUA (s1 per_hour) (capacity (perHour default_rateLimiting))
                      (refillRate (perHour default_rateLimiting)) (intervalMs (perHour default_rateLimiting)) 1 b3))"
    unfolding s2_def acquire_calm(2) bc by simp_all
  have r2: "reply_of (fst (acquireToken Standard rl (at_time b1, at_time b2, at_time b3) s1)) = Some (True, 0)"
    unfolding acquire_calm(1) bc using S(2) M(2) H(2) by (simp add: s1)
  have r3: "reply_of (fst (acquireToken Standard rl (at_time c1, at_time c2, at_time c3) s2)) = Some (False, 500)"
    unfolding acquire_calm(1) bc s2 using S(3) M(3) H(3) by (simp add: s1)
  show ?thesis
    using r1 r2 r3 by (simp add: rl_def[symmetric] s0_def[symmetric] s1_def[symmetric] s2_def[symmetric])
qed

lemma positive_rates_default: "positive_rates default_rateLimiting"
  by (simp add: positive_rates_def bucket_cfg_def default_rateLimiting_def split: bucket_name.split)

text \<open>
  Claim C2, as the code has it. Whenever \<open>acquireToken\<close> returns (no error thrown by the
  store) under positive refill rates and intervals, it has a result for each of the three
  buckets, it is \<open>allowed\<close> exactly when all three are, and when it is not, its
  \<open>waitTimeMs\<close> is the maximum of the three per-bucket waits, the wait of a denied bucket
  being \<open>\<lceil>(1 - tokens) / refillRate * intervalMs\<rceil>\<close> for the tokens it holds. With the
  standard backend, fresh buckets and the default limits, two acquires and a third one
  whose per-second check comes less than 500 ms after the first one's return
  \<open>allowed\<close>, \<open>allowed\<close> and \<open>not allowed\<close> with \<open>waitTimeMs = 500\<close>.
\<close>

theorem acquireToken_all_buckets:
  "(positive_rates rl \<and> acquireToken be rl envs store = (Inr r, store') \<longrightarrow>
      (\<forall>n. bucketStates r n \<noteq> None)
      \<and> (allowed r \<longleftrightarrow> (\<forall>n. allowed (the (bucketStates r n))))
      \<and> (\<not> allowed r \<longrightarrow>
           waitTimeMs r = max (waitTimeMs (the (bucketStates r per_second)))
                            (max (waitTimeMs (the (bucketStates r per_minute)))
                                 (waitTimeMs (the (bucketStates r per_hour)))))
      \<and> (\<forall>n. \<not> allowed (the (bucketStates r n)) \<longrightarrow>
           (\<exists>b. store' n = Some b
               \<and> waitTimeMs (the (bucketStates r n)) = bucket_wait (bucket_cfg rl n) (tokens b))))
   \<and> (a1 \<le> b1 \<and> b1 \<le> c1 \<and> c1 < a1 + 500 \<and> a2 \<le> b2 \<and> b2 \<le> c2 \<and> a3 \<le> b3 \<and> b3 \<le> c3 \<longrightarrow>
        map reply_of
          (acquire_many Standard default_rateLimiting (\<lambda>n. None)
             [(at_time a1, at_time a2, at_time a3), (at_time b1, at_time b2, at_time b3),
              (at_time c1, at_time c2, at_time c3)])
        = [Some (True, 0), Some (True, 0), Some (False, 500)])"
  using acquireToken_general[of rl be envs store r store'] three_acquires[of a1 b1 c1 a2 b2 c2 a3 b3 c3]
  by blast

lemma drained_second:
  "acquireToken Standard default_rateLimiting (at_time 1100, at_time 1100, at_time 1100)
     ((\<lambda>n. None)(per_second \<mapsto> \<lparr>tokens = 0, last_refill = 1000, expires_at = Some 5000\<rparr>))
   = (Inr \<lparr>allowed = False, waitTimeMs = 500,
           bucketStates = [per_second \<mapsto> \<lparr>allowed = False, waitTimeMs = 500, tokensRemaining = 0\<rparr>,
                           per_minute \<mapsto> \<lparr>allowed = True, waitTimeMs = 0, tokensRemaining = 49\<rparr>,
                           per_hour \<mapsto> \<lparr>allowed = True, waitTimeMs = 0, tokensRemaining = 299\<rparr>]\<rparr>,
      (\<lambda>n. None)(per_second \<mapsto> \<lparr>tokens = 0, last_refill = 1000, expires_at = Some 7201100\<rparr>,
                   per_minute \<mapsto> \<lparr>tokens = 49, last_refill = 1100, expires_at = Some 7201100\<rparr>,
                   per_hour \<mapsto> \<lparr>tokens = 299, last_refill = 1100, expires_at = Some 7201100\<rparr>))"
  by (simp add: acquireToken_def checkBucket_def at_time_def default_rateLimiting_def
        TOKEN_BUCKET_LUA_def redis_read_def Let_def ttl_ms_def lua_to_integer_def)

theorem acquireToken_all_buckets_witness:
  "positive_rates default_rateLimiting
   \<and> acquireToken Standard default_rateLimiting (at_time 1100, at_time 1100, at_time 1100)
       ((\<lambda>n. None)(per_second \<mapsto> \<lparr>tokens = 0, last_refill = 1000, expires_at = Some 5000\<rparr>))
     = (Inr \<lparr>allowed = False, waitTimeMs = 500,
             bucketStates = [per_second \<mapsto> \<lparr>allowed = False, waitTimeMs = 500, tokensRemaining = 0\<rparr>,
                             per_minute \<mapsto> \<lparr>allowed = True, waitTimeMs = 0, tokensRemaining = 49\<rparr>,
                             per_hour \<mapsto> \<lparr>allowed = True, waitTimeMs = 0, tokensRemaining = 299\<rparr>]\<rparr>,
        (\<lambda>n. None)(per_second \<mapsto> \<lparr>tokens = 0, last_refill = 1000, expires_at = Some 7201100\<rparr>,
                     per_minute \<mapsto> \<lparr>tokens = 49, last_refill = 1100, expires_at = Some 7201100\<rparr>,
                     per_hour \<mapsto> \<lparr>tokens = 299, last_refill = 1100, expires_at = Some 7201100\<rparr>))
   \<and> bucket_wait (bucket_cfg default_rateLimiting per_second) 0 = 500
   \<and> (1000::int) \<le> 1200 \<and> (1200::int) \<le> 1499 \<and> (1499::int) < 1000 + 500
   \<and> (1001::int) \<le> 1201 \<and> (1201::int) \<le> 1502 \<and> (1002::int) \<le> 1202 \<and> (1202::int) \<le> 1503
   \<and> map reply_of
        (acquire_many Standard default_rateLimiting (\<lambda>n. None)
           [(at_time 1000, at_time 1001, at_time 1002), (at_time 1200, at_time 1201, at_time 1202),
            (at_time 1499, at_time 1502, at_time 1503)])
      = [Some (True, 0), Some (True, 0), Some (False, 500)]"
  using acquireToken_all_buckets
    [of default_rateLimiting Standard "(at_time 1100, at_time 1100, at_time 1100)"
        "(\<lambda>n. None)(per_second \<mapsto> \<lparr>tokens = 0, last_refill = 1000, expires_at = Some 5000\<rparr>)"
        "\<lparr>allowed = False, waitTimeMs = 500,
             bucketStates = [per_second \<mapsto> \<lparr>allowed = False, waitTimeMs = 500, tokensRemaining = 0\<rparr>,
                             per_minute \<mapsto> \<lparr>allowed = True, waitTimeMs = 0, tokensRemaining = 49\<rparr>,
                             per_hour \<mapsto> \<lparr>allowed = True, waitTimeMs = 0, tokensRemaining = 299\<rparr>]\<rparr>"
        "(\<lambda>n. None)(per_second \<mapsto> \<lparr>tokens = 0, last_refill = 1000, expires_at = Some 7201100\<rparr>,
                     per_minute \<mapsto> \<lparr>tokens = 49, last_refill = 1100, expires_at = Some 7201100\<rparr>,
                     per_hour \<mapsto> \<lparr>tokens = 299, last_refill = 1100, expires_at = Some 7201100\<rparr>)"
        1000 1200 1499 1001 1201 1502 1002 1202 1503]
    positive_rates_default drained_second
  by (simp add: bucket_wait_def bucket_cfg_def default_rateLimiting_def)

text \<open>
  The scenario of the claim as stated fails: a third acquire 500 ms after the first, hence
  within the same second, finds one token refilled and is allowed.
\<close>

theorem acquireToken_third_within_second_counterexample:
  "map reply_of
     (acquire_many Standard default_rateLimiting (\<lambda>n. None)
        [(at_time 1000, at_time 1000, at_time 1000), (at_time 1000, at_time 1000, at_time 1000),
         (at_time 1500, at_time 1500, at_time 1500)])
   = [Some (True, 0), Some (True, 0), Some (True, 0)]"
  by (simp add: acquireToken_def checkBucket_def at_time_def default_rateLimiting_def reply_of_def
        TOKEN_BUCKET_LUA_def redis_read_def Let_def ttl_ms_def lua_to_integer_def)

text \<open>
  The REST backend reads the stored fields through a truthiness test. When the client
  hands the stored \<open>"0"\<close> over as the number 0, an emptied bucket is taken for a missing
  one and refilled to capacity: the third immediate acquire is allowed. When the fields
  arrive as strings it is denied.
\<close>

lemma upstash_third_acquire:
  "map reply_of
     (acquire_many (Upstash True) default_rateLimiting (\<lambda>n. None)
        [(at_time 1000, at_time 1000, at_time 1000), (at_time 1000, at_time 1000, at_time 1000),
         (at_time 1000, at_time 1000, at_time 1000)])
   = [Some (True, 0), Some (True, 0), Some (True, 0)]"
  "map reply_of
     (acquire_many (Upstash False) default_rateLimiting (\<lambda>n. None)
        [(at_time 1000, at_time 1000, at_time 1000), (at_time 1000, at_time 1000, at_time 1000),
         (at_time 1000, at_time 1000, at_time 1000)])
   = [Some (True, 0), Some (True, 0), Some (False, 500)]"
  by (simp_all add: acquireToken_def checkBucket_def at_time_def default_rateLimiting_def reply_of_def
        checkBucketUpstash_def redis_read_def Let_def ttl_ms_def)

section \<open>Properties of the analytics\<close>

lemma string_of_nat_digit: "n < 10 \<Longrightarrow> string_of_nat n = [digit_char n]"
  by (subst string_of_nat.simps) simp

lemma string_of_nat_more:
  "10 \<le> n \<Longrightarrow> string_of_nat n = string_of_nat (n div 10) @ [digit_char (n mod 10)]"
  by (subst string_of_nat.simps) simp

lemma nav_gt_numbers [simp]: "nav_gt (NavNumber a) (NavNumber b) = (b < a)"
  by (simp add: nav_gt_def num_of_def)

lemma num_of_number [simp]: "num_of (NavNumber a) = a"
  by (simp add: num_of_def)

lemma lessThan_Suc_image: "f ` {..<Suc n} = insert (f 0) ((\<lambda>i. f (Suc i)) ` {..<n})"
proof -
  have "{..<Suc n} = insert 0 (Suc ` {..<n})"
    by (rule lessThan_Suc_eq_insert_0)
  then show ?thesis by (simp add: image_image)
qed

lemma Min_insert_insert:
  fixes m d :: real
  assumes "finite X"
  shows "Min (insert m (insert d X)) = Min (insert (if d < m then d else m) X)"
proof (cases "X = {}")
  case True
  then show ?thesis by (simp add: min_def)
next
  case False
  then have "Min (insert m (insert d X)) = min m (min d (Min X))"
    using assms by simp
  moreover have "Min (insert (if d < m then d else m) X) = min (if d < m then d else m) (Min X)"
    using assms False by simp
  ultimately show ?thesis by (simp add: min_def)
qed

lemma drawdown_loop_numbers:
  "0 < p \<Longrightarrow> \<forall>v\<in>set vs. 0 < v \<Longrightarrow>
   drawdown_loop (NavNumber p) (Num m) (map NavNumber vs)
     = Num (Min (insert m ((\<lambda>i. (vs ! i - max p (Max (set (take (Suc i) vs))))
                                 / max p (Max (set (take (Suc i) vs)))) ` {..<length vs})))"
proof (induction vs arbitrary: p m)
  case Nil
  then show ?case by simp
next
  case (Cons v vs)
  define p' where "p' = (if p < v then v else p)"
  define dd where "dd = (v - p') / p'"
  have p'pos: "0 < p'" using Cons.prems by (simp add: p'_def)
  have p'max: "p' = max p v" by (simp add: p'_def max_def)
  have step: "drawdown_loop (NavNumber p) (Num m) (map NavNumber (v # vs))
      = drawdown_loop (NavNumber p') (Num (if dd < m then dd else m)) (map NavNumber vs)"
    using Cons.prems by (auto simp: Let_def p'_def dd_def js_divide_def)
  have ih: "drawdown_loop (NavNumber p') (Num (if dd < m then dd else m)) (map NavNumber vs)
     = Num (Min (insert (if dd < m then dd else m)
                  ((\<lambda>i. (vs ! i - max p' (Max (set (take (Suc i) vs))))
                                 / max p' (Max (set (take (Suc i) vs)))) ` {..<length vs})))"
    using Cons.IH[OF p'pos] Cons.prems(2) by simp
  let ?G = "\<lambda>i. ((v # vs) ! i - max p (Max (set (take (Suc i) (v # vs)))))
                                 / max p (Max (set (take (Suc i) (v # vs))))"
  let ?F = "\<lambda>i. (vs ! i - max p' (Max (set (take (Suc i) vs))))
                                 / max p' (Max (set (take (Suc i) vs)))"
  have G0: "?G 0 = dd" by (simp add: dd_def p'max)
  have GS: "?G (Suc i) = ?F i" if "i < length vs" for i
  proof -
    from that have ne: "set (take (Suc i) vs) \<noteq> {}" by (cases vs) auto
    have "Max (set (take (Suc (Suc i)) (v # vs))) = max v (Max (set (take (Suc i) vs)))"
      using ne by (simp del: take_Suc_Cons add: take_Suc_Cons[of "Suc i" v vs])
    then show ?thesis by (simp add: p'max max.assoc del: take_Suc_Cons)
  qed
  have "(\<lambda>i. ?G (Suc i)) ` {..<length vs} = ?F ` {..<length vs}"
    by (rule image_cong) (use GS in auto)
  then have im: "?G ` {..<length (v # vs)} = insert dd (?F ` {..<length vs})"
    using lessThan_Suc_image[of ?G "length vs"] G0 by simp
  have fin: "finite (?F ` {..<length vs})" by simp
  have "Min (insert m (insert dd (?F ` {..<length vs})))
      = Min (insert (if dd < m then dd else m) (?F ` {..<length vs}))"
    by (rule Min_insert_insert[OF fin])
  then show ?case unfolding step ih im by simp
qed

lemma running_peak_from_first:
  assumes "i < length vs"
  shows "max (vs ! 0) (Max (set (take (Suc i) vs))) = running_peak vs i"
proof -
  from assms obtain w ws where vs: "vs = w # ws" by (cases vs) auto
  have "vs ! 0 \<in> set (take (Suc i) vs)" by (simp add: vs)
  then have "vs ! 0 \<le> Max (set (take (Suc i) vs))" by (intro Max_ge) auto
  then show ?thesis by (simp add: running_peak_def max_def)
qed

lemma drawdown_at_first: "vs \<noteq> [] \<Longrightarrow> vs ! 0 \<noteq> 0 \<Longrightarrow> drawdown_at vs 0 = 0"
  by (cases vs) (simp_all add: drawdown_at_def running_peak_def)

lemma calculateMaxDrawdown_numbers:
  assumes len: "2 \<le> length navHistory" and nums: "map nav navHistory = map NavNumber vs"
    and pos: "\<forall>v\<in>set vs. 0 < v"
  shows "calculateMaxDrawdown navHistory = JNumber (Num (spec_max_drawdown vs))"
proof -
  have lv: "length vs = length navHistory" using nums by (metis length_map)
  then have ne: "vs \<noteq> []" using len by auto
  have first: "nav (navHistory ! 0) = NavNumber (vs ! 0)"
    using nums len by (cases navHistory; cases vs) auto
  have p0: "0 < vs ! 0" using pos ne by (cases vs) auto
  let ?F = "\<lambda>i. (vs ! i - max (vs ! 0) (Max (set (take (Suc i) vs))))
                                 / max (vs ! 0) (Max (set (take (Suc i) vs)))"
  have "?F ` {..<length vs} = drawdown_at vs ` {..<length vs}"
    by (rule image_cong) (auto simp: running_peak_from_first drawdown_at_def)
  moreover have "0 \<in> drawdown_at vs ` {..<length vs}"
    using drawdown_at_first[OF ne] p0 ne by (metis image_eqI length_greater_0_conv lessThan_iff less_irrefl)
  ultimately have "insert 0 (?F ` {..<length vs}) = drawdown_at vs ` {..<length vs}" by auto
  then have "drawdown_loop (NavNumber (vs ! 0)) (Num 0) (map NavNumber vs) = Num (spec_max_drawdown vs)"
    using drawdown_loop_numbers[OF p0 pos, of 0] by (simp add: spec_max_drawdown_def)
  then show ?thesis using len by (simp add: calculateMaxDrawdown_def first nums)
qed

lemma spec_max_drawdown_nonpos:
  assumes "vs \<noteq> []" "\<forall>v\<in>set vs. 0 < v"
  shows "spec_max_drawdown vs \<le> 0"
proof -
  have "vs ! 0 \<noteq> 0" using assms by (cases vs) auto
  then have "drawdown_at vs 0 = 0" using drawdown_at_first assms(1) by blast
  moreover have "0 \<in> {..<length vs}" using assms(1) by simp
  ultimately have "0 \<in> drawdown_at vs ` {..<length vs}" by (metis image_eqI)
  then show ?thesis unfolding spec_max_drawdown_def by (intro Min_le) auto
qed

lemma sorted_Max_last: "sorted xs \<Longrightarrow> xs \<noteq> [] \<Longrightarrow> Max (set xs) = last (xs :: real list)"
proof (induction xs)
  case Nil
  then show ?case by simp
next
  case (Cons x xs)
  show ?case
  proof (cases "xs = []")
    case True
    then show ?thesis by simp
  next
    case False
    then have "Max (set xs) = last xs" using Cons by simp
    moreover have "x \<le> last xs" using Cons.prems False by simp
    ultimately show ?thesis using False by (simp add: max_def)
  qed
qed

lemma spec_max_drawdown_sorted:
  assumes ne: "vs \<noteq> []" and pos: "\<forall>v\<in>set vs. 0 < v" and srt: "sorted vs"
  shows "spec_max_drawdown vs = 0"
proof -
  have "drawdown_at vs i = 0" if "i < length vs" for i
  proof -
    have "sorted (take (Suc i) vs)" using srt by (rule sorted_wrt_take)
    moreover have tne: "take (Suc i) vs \<noteq> []" using ne by simp
    ultimately have "Max (set (take (Suc i) vs)) = last (take (Suc i) vs)" by (rule sorted_Max_last)
    also have "\<dots> = vs ! i"
    proof -
      have "length (take (Suc i) vs) = Suc i" using that by simp
      then have "last (take (Suc i) vs) = take (Suc i) vs ! i"
        using tne by (simp add: last_conv_nth)
      then show ?thesis by simp
    qed
    finally show ?thesis by (simp add: drawdown_at_def running_peak_def)
  qed
  then have "drawdown_at vs ` {..<length vs} = {0}" using ne by auto
  then show ?thesis by (simp add: spec_max_drawdown_def)
qed

text \<open>
  Claim C3, as the code has it. A history of fewer than two points yields \<open>null\<close>. For a
  history of at least two points whose NAVs are positive numbers, \<open>calculateMaxDrawdown\<close>
  returns the least value of \<open>(nav - peak) / peak\<close> over the history, \<open>peak\<close> being the
  running maximum; that value is at most 0, and it is 0 when the NAVs never decrease. The
  series \<open>[100, 110, 95, 88, 105]\<close> yields -0.20 and \<open>[100, 90, 95, 110, 77, 100]\<close> yields
  -0.30.
\<close>

theorem calculateMaxDrawdown_sweep:
  "(length navHistory < 2 \<longrightarrow> calculateMaxDrawdown navHistory = JNull)
   \<and> (2 \<le> length navHistory \<and> map nav navHistory = map NavNumber vs \<and> (\<forall>v\<in>set vs. 0 < v) \<longrightarrow>
        calculateMaxDrawdown navHistory = JNumber (Num (spec_max_drawdown vs))
        \<and> spec_max_drawdown vs \<le> 0
        \<and> (sorted vs \<longrightarrow> spec_max_drawdown vs = 0))
   \<and> calculateMaxDrawdown (number_series [100, 110, 95, 88, 105]) = JNumber (Num (- (20 / 100)))
   \<and> calculateMaxDrawdown (number_series [100, 90, 95, 110, 77, 100]) = JNumber (Num (- (30 / 100)))"
proof (intro conjI impI)
  assume "length navHistory < 2"
  then show "calculateMaxDrawdown navHistory = JNull" by (simp add: calculateMaxDrawdown_def)
next
  assume h: "2 \<le> length navHistory \<and> map nav navHistory = map NavNumber vs \<and> (\<forall>v\<in>set vs. 0 < v)"
  then show "calculateMaxDrawdown navHistory = JNumber (Num (spec_max_drawdown vs))"
    using calculateMaxDrawdown_numbers by blast
  have "length vs = length navHistory" using h by (metis length_map)
  then have ne: "vs \<noteq> []" using h by auto
  show "spec_max_drawdown vs \<le> 0" using spec_max_drawdown_nonpos[OF ne] h by blast
  show "spec_max_drawdown vs = 0" if "sorted vs"
    using spec_max_drawdown_sorted[OF ne _ that] h by blast
next
  show "calculateMaxDrawdown (number_series [100, 110, 95, 88, 105]) = JNumber (Num (- (20 / 100)))"
    by (simp add: calculateMaxDrawdown_def number_series_def js_divide_def Let_def)
next
  show "calculateMaxDrawdown (number_series [100, 90, 95, 110, 77, 100]) = JNumber (Num (- (30 / 100)))"
    by (simp add: calculateMaxDrawdown_def number_series_def js_divide_def Let_def)
qed

theorem calculateMaxDrawdown_sweep_witness:
  "2 \<le> length (number_series [100, 120, 90]) \<and>
   map nav (number_series [100, 120, 90]) = map NavNumber [100, 120, 90] \<and>
   (0::real) < 100 \<and> (0::real) < 120 \<and> (0::real) < 90 \<and>
   calculateMaxDrawdown (number_series [100, 120, 90]) = JNumber (Num (spec_max_drawdown [100, 120, 90])) \<and>
   spec_max_drawdown [100, 120, 90] \<le> 0 \<and>
   length (number_series [100]) < 2 \<and> calculateMaxDrawdown (number_series [100]) = JNull"
  using calculateMaxDrawdown_sweep [of "number_series [100, 120, 90]" "[100, 120, 90]"]
    calculateMaxDrawdown_sweep [of "number_series [100]" "[]"]
  by (simp add: number_series_def)

text \<open>
  The claim as stated fails on the single-point history, which never decreases and for
  which the result is \<open>null\<close>, not 0.
\<close>

theorem calculateMaxDrawdown_single_point_counterexample:
  "calculateMaxDrawdown (number_series [100]) = JNull \<and> sorted [100 :: real]"
  by (simp add: calculateMaxDrawdown_def number_series_def)

text \<open>
  Rows read from the database carry their NAV as decimal strings, and the running peak is
  then chosen by comparing strings: after the peak \<open>"110.0000"\<close> the value \<open>"95.0000"\<close>
  counts as greater and replaces it.
\<close>

lemma calculateMaxDrawdown_decimal_strings:
  "calculateMaxDrawdown
     (map (\<lambda>k. \<lparr>date = (), nav = NavDecimal k\<rparr>) [1000000, 1100000, 950000, 880000, 1050000])
   = JNumber (Num (- (7 / 95)))"
proof -
  have ds: "decimal_string 1000000 = ''100.0000''" "decimal_string 1100000 = ''110.0000''"
    "decimal_string 950000 = ''95.0000''" "decimal_string 880000 = ''88.0000''"
    "decimal_string 1050000 = ''105.0000''"
    by (simp_all add: decimal_string_def digit_char_def string_of_nat_digit string_of_nat_more Let_def)
  show ?thesis
    by (simp add: calculateMaxDrawdown_def nav_gt_def num_of_def ds js_divide_def Let_def)
qed

lemma dom_fold_nav:
  "dom (fold (\<lambda>p m. m(date p \<mapsto> nav p)) h m0) = dom m0 \<union> date ` set h"
  by (induction h arbitrary: m0) auto

lemma dom_nav_by_date: "dom (nav_by_date h) = date ` set h"
  by (simp add: nav_by_date_def dom_fold_nav)

lemma probe_past_none:
  "\<forall>k\<in>set offsets. navByDate (d + k) = None \<Longrightarrow> probe_past navByDate d offsets = None"
  by (induction offsets) auto

lemma concat_map_empty: "(\<forall>x\<in>set xs. f x = []) \<Longrightarrow> concat (map f xs) = []"
  by (induction xs) auto

lemma short_history_no_returns:
  assumes lo: "\<forall>p\<in>set h. first \<le> date p" and hi: "\<forall>p\<in>set h. date p \<le> final"
    and short: "final - first < windowDays - 5"
  shows "calculateRollingReturns h windowDays = []"
proof -
  have none: "past_nav (nav_by_date h) (date p) windowDays = None" if "p \<in> set h" for p
    unfolding past_nav_def
  proof (rule probe_past_none, rule ballI)
    fix k :: int assume "k \<in> set [0, 1, 2, 3, 4, 5]"
    then have k: "k \<le> 5" by auto
    have "date p \<le> final" using hi that by blast
    then have "date p - windowDays + k < first" using short k by linarith
    then have "date p - windowDays + k \<notin> date ` set h" using lo by force
    then show "nav_by_date h (date p - windowDays + k) = None"
      using dom_nav_by_date[of h] by blast
  qed
  show ?thesis
    unfolding calculateRollingReturns_def Let_def
    by (rule concat_map_empty) (simp add: none)
qed

lemma computeSchemeAnalytics_None_iff:
  "computeSchemeAnalytics w navHistory = None \<longleftrightarrow>
     navHistory = [] \<or> history_days navHistory < of_int (windowToDays w) * (9 / 10)
     \<or> calculateRollingReturns navHistory (windowToDays w) = []"
  by (simp add: computeSchemeAnalytics_def Let_def)

lemma sorted_dates_bounds:
  assumes "sorted (map date h)" "p \<in> set h"
  shows "date (h ! 0) \<le> date p" "date p \<le> date (h ! (length h - 1))"
proof -
  from assms(2) obtain i where i: "i < length h" "h ! i = p" by (auto simp: in_set_conv_nth)
  have "map date h ! 0 \<le> map date h ! i"
    using assms(1) i(1) by (intro sorted_nth_mono) auto
  moreover have "0 < length h" using i(1) by auto
  ultimately show "date (h ! 0) \<le> date p" using i by simp
  have "map date h ! i \<le> map date h ! (length h - 1)"
    using assms(1) i(1) by (intro sorted_nth_mono) auto
  moreover have "length h - 1 < length h" using i(1) by auto
  ultimately show "date p \<le> date (h ! (length h - 1))" using i by simp
qed

lemma short_span_skipped:
  assumes srt: "sorted (map date navHistory)"
    and short: "history_days navHistory < of_int (windowToDays w - 5)"
  shows "computeSchemeAnalytics w navHistory = None"
proof -
  have "date (navHistory ! (length navHistory - 1)) - date (navHistory ! 0) < windowToDays w - 5"
    using short unfolding history_days_def by linarith
  then have "calculateRollingReturns navHistory (windowToDays w) = []"
    using sorted_dates_bounds[OF srt]
    by (intro short_history_no_returns[where first = "date (navHistory ! 0)"
            and final = "date (navHistory ! (length navHistory - 1))"]) auto
  then show ?thesis by (simp add: computeSchemeAnalytics_None_iff)
qed

text \<open>
  Claim C4, as the code has it. \<open>computeSchemeAnalytics\<close> produces nothing exactly when the
  history is empty, or \<open>history_days\<close> is strictly less than \<open>0.9 * W_days\<close>, or no rolling
  return can be formed. So it skips whenever \<open>history_days < 0.9 * W_days\<close>; and a history in
  ascending date order that spans fewer than \<open>W_days - 5\<close> days is skipped as well, because
  no date of it lies within the five days after \<open>date - W_days\<close>: a history of exactly
  \<open>0.9 * W_days\<close> passes the 90 percent test and is skipped for that second reason.
\<close>

theorem computeSchemeAnalytics_skips:
  "(computeSchemeAnalytics w navHistory = None \<longleftrightarrow>
      navHistory = [] \<or> history_days navHistory < of_int (windowToDays w) * (9 / 10)
      \<or> calculateRollingReturns navHistory (windowToDays w) = [])
   \<and> (history_days navHistory < of_int (windowToDays w) * (9 / 10) \<longrightarrow>
        computeSchemeAnalytics w navHistory = None)
   \<and> (sorted (map date navHistory) \<and> history_days navHistory < of_int (windowToDays w - 5) \<longrightarrow>
        computeSchemeAnalytics w navHistory = None)"
  using computeSchemeAnalytics_None_iff[of w navHistory] short_span_skipped[of navHistory w]
  by blast

theorem computeSchemeAnalytics_skips_witness:
  "sorted (map date [\<lparr>date = 0 :: int, nav = NavDecimal 1000000\<rparr>, \<lparr>date = 3285, nav = NavDecimal 1100000\<rparr>])
   \<and> history_days [\<lparr>date = 0, nav = NavDecimal 1000000\<rparr>, \<lparr>date = 3285, nav = NavDecimal 1100000\<rparr>]
       < of_int (windowToDays W10Y - 5)
   \<and> history_days [\<lparr>date = 0, nav = NavDecimal 1000000\<rparr>, \<lparr>date = 3285, nav = NavDecimal 1100000\<rparr>]
       = of_int (windowToDays W10Y) * (9 / 10)
   \<and> computeSchemeAnalytics W10Y
        [\<lparr>date = 0, nav = NavDecimal 1000000\<rparr>, \<lparr>date = 3285, nav = NavDecimal 1100000\<rparr>] = None
   \<and> history_days [\<lparr>date = 0, nav = NavDecimal 1000000\<rparr>, \<lparr>date = 100, nav = NavDecimal 1100000\<rparr>]
       < of_int (windowToDays W1Y) * (9 / 10)
   \<and> computeSchemeAnalytics W1Y
        [\<lparr>date = 0, nav = NavDecimal 1000000\<rparr>, \<lparr>date = 100, nav = NavDecimal 1100000\<rparr>] = None"
  using computeSchemeAnalytics_skips
          [of W10Y "[\<lparr>date = 0, nav = NavDecimal 1000000\<rparr>, \<lparr>date = 3285, nav = NavDecimal 1100000\<rparr>]"]
        computeSchemeAnalytics_skips
          [of W1Y "[\<lparr>date = 0, nav = NavDecimal 1000000\<rparr>, \<lparr>date = 100, nav = NavDecimal 1100000\<rparr>]"]
  by (simp add: history_days_def)

text \<open>
  The claim as stated (skipped exactly when \<open>history_days < 0.9 * W_days\<close>) fails: a history
  of 330 days is not below \<open>0.9 * 365 = 328.5\<close> and yet nothing is produced for the one-year
  window.
\<close>

theorem computeSchemeAnalytics_skips_counterexample:
  "computeSchemeAnalytics W1Y
     [\<lparr>date = 0, nav = NavDecimal 1000000\<rparr>, \<lparr>date = 330, nav = NavDecimal 1100000\<rparr>] = None
   \<and> \<not> history_days [\<lparr>date = 0, nav = NavDecimal 1000000\<rparr>, \<lparr>date = 330, nav = NavDecimal 1100000\<rparr>]
         < of_int (windowToDays W1Y) * (9 / 10)"
  by (simp add: computeSchemeAnalytics_def history_days_def calculateRollingReturns_def
        nav_by_date_def past_nav_def Let_def)

text \<open>A history for which the one-year window is computed.\<close>

lemma computeSchemeAnalytics_produces:
  "computeSchemeAnalytics W1Y
     [\<lparr>date = 0, nav = NavDecimal 1000000\<rparr>, \<lparr>date = 363, nav = NavDecimal 1100000\<rparr>,
      \<lparr>date = 366, nav = NavDecimal 1200000\<rparr>] \<noteq> None"
  by (simp add: computeSchemeAnalytics_def history_days_def calculateRollingReturns_def
        nav_by_date_def past_nav_def calculateReturn_def num_of_def Let_def)

section \<open>Properties of the normalisation\<close>

lemma insort_key_last:
  "\<forall>y\<in>set ys. f y < f x \<Longrightarrow> insort_key f x ys = ys @ [x]"
  by (induction ys) auto

lemma sort_key_descending:
  "sorted_wrt (\<lambda>a b. f b < f a) xs \<Longrightarrow> sort_key f xs = rev xs"
proof (induction xs)
  case Nil
  then show ?case by simp
next
  case (Cons x xs)
  then have "sort_key f xs = rev xs" by simp
  moreover have "\<forall>y\<in>set (rev xs). f y < f x" using Cons.prems by simp
  ultimately show ?case by (simp add: sort_key_def insort_key_last)
qed

lemma digit_cases:
  "is_digit c \<Longrightarrow> c = CHR ''0'' \<or> c = CHR ''1'' \<or> c = CHR ''2'' \<or> c = CHR ''3'' \<or> c = CHR ''4''
     \<or> c = CHR ''5'' \<or> c = CHR ''6'' \<or> c = CHR ''7'' \<or> c = CHR ''8'' \<or> c = CHR ''9''"
  by (auto simp: is_digit_def)

lemma digit_value_bound: "is_digit c \<Longrightarrow> digit_value c < 10"
  by (auto dest!: digit_cases simp: digit_value_def)

lemma digit_not_dash: "is_digit c \<Longrightarrow> c \<noteq> CHR ''-''"
  by (auto dest!: digit_cases)

lemma digit_less_iff:
  assumes "is_digit a" "is_digit b"
  shows "a < b \<longleftrightarrow> digit_value a < digit_value b"
  using digit_cases[OF assms(1)] digit_cases[OF assms(2)]
  by (elim disjE) (simp_all add: digit_value_def less_char_def)

lemma digit_eq_iff:
  assumes "is_digit a" "is_digit b"
  shows "a = b \<longleftrightarrow> digit_value a = digit_value b"
  using digit_cases[OF assms(1)] digit_cases[OF assms(2)]
  by (elim disjE) (simp_all add: digit_value_def)

lemma shift_digit_less:
  fixes x y b b' :: nat
  assumes "b < 10" "b' < 10"
  shows "10 * x + b < 10 * y + b' \<longleftrightarrow> x < y \<or> (x = y \<and> b < b')"
proof (cases x y rule: linorder_cases)
  case less
  then have "10 * x + 10 \<le> 10 * y" by simp
  then show ?thesis using less assms by linarith
next
  case equal
  then show ?thesis by simp
next
  case greater
  then have "10 * y + 10 \<le> 10 * x" by simp
  then show ?thesis using greater assms by linarith
qed

lemma shift_digit_eq:
  fixes x y b b' :: nat
  assumes "b < 10" "b' < 10"
  shows "10 * x + b = 10 * y + b' \<longleftrightarrow> x = y \<and> b = b'"
proof (cases x y rule: linorder_cases)
  case less
  then have "10 * x + 10 \<le> 10 * y" by simp
  then show ?thesis using less assms by linarith
next
  case equal
  then show ?thesis by simp
next
  case greater
  then have "10 * y + 10 \<le> 10 * x" by simp
  then show ?thesis using greater assms by linarith
qed

lemma four_digits_less:
  fixes a b c d a' b' c' d' :: nat
  assumes "b < 10" "c < 10" "d < 10" "b' < 10" "c' < 10" "d' < 10"
  shows "10 * (10 * (10 * a + b) + c) + d < 10 * (10 * (10 * a' + b') + c') + d'
         \<longleftrightarrow> a < a' \<or> (a = a' \<and> (b < b' \<or> (b = b' \<and> (c < c' \<or> (c = c' \<and> d < d')))))"
  unfolding shift_digit_less[OF assms(3,6)] shift_digit_less[OF assms(2,5)]
    shift_digit_less[OF assms(1,4)] shift_digit_eq[OF assms(2,5)] shift_digit_eq[OF assms(1,4)]
  by blast

lemma four_digits_eq:
  fixes a b c d a' b' c' d' :: nat
  assumes "b < 10" "c < 10" "d < 10" "b' < 10" "c' < 10" "d' < 10"
  shows "10 * (10 * (10 * a + b) + c) + d = 10 * (10 * (10 * a' + b') + c') + d'
         \<longleftrightarrow> a = a' \<and> b = b' \<and> c = c' \<and> d = d'"
  unfolding shift_digit_eq[OF assms(3,6)] shift_digit_eq[OF assms(2,5)] shift_digit_eq[OF assms(1,4)]
  by blast

lemma ddmmyyyy_shape:
  assumes "is_ddmmyyyy s"
  shows "s = [s ! 0, s ! 1, CHR ''-'', s ! 3, s ! 4, CHR ''-'', s ! 6, s ! 7, s ! 8, s ! 9]"
    and "is_digit (s ! 0)" and "is_digit (s ! 1)" and "is_digit (s ! 3)" and "is_digit (s ! 4)"
    and "is_digit (s ! 6)" and "is_digit (s ! 7)" and "is_digit (s ! 8)" and "is_digit (s ! 9)"
proof -
  have len: "length s = Suc (Suc (Suc (Suc (Suc (Suc (Suc (Suc (Suc (Suc 0)))))))))"
    using assms by (simp add: is_ddmmyyyy_def)
  then obtain a0 a1 a2 a3 a4 a5 a6 a7 a8 a9 where s: "s = [a0, a1, a2, a3, a4, a5, a6, a7, a8, a9]"
    by (auto simp: length_Suc_conv)
  have f: "a2 = CHR ''-''" "a5 = CHR ''-''" "is_digit a0" "is_digit a1" "is_digit a3" "is_digit a4"
    "is_digit a6" "is_digit a7" "is_digit a8" "is_digit a9"
    using assms unfolding s by (simp_all add: is_ddmmyyyy_def)
  show "s = [s ! 0, s ! 1, CHR ''-'', s ! 3, s ! 4, CHR ''-'', s ! 6, s ! 7, s ! 8, s ! 9]"
    using f(1,2) by (simp add: s)
  show "is_digit (s ! 0)" "is_digit (s ! 1)" "is_digit (s ! 3)" "is_digit (s ! 4)"
    "is_digit (s ! 6)" "is_digit (s ! 7)" "is_digit (s ! 8)" "is_digit (s ! 9)"
    using f by (simp_all add: s)
qed

lemma parseNavDate_shape:
  assumes "is_digit d1" "is_digit d2" "is_digit m1" "is_digit m2"
    "is_digit y1" "is_digit y2" "is_digit y3" "is_digit y4"
  shows "parseNavDate [d1, d2, CHR ''-'', m1, m2, CHR ''-'', y1, y2, y3, y4]
         = [y1, y2, y3, y4, CHR ''-'', m1, m2, CHR ''-'', d1, d2]"
proof -
  have nd: "d1 \<noteq> CHR ''-''" "d2 \<noteq> CHR ''-''" "m1 \<noteq> CHR ''-''" "m2 \<noteq> CHR ''-''"
    "y1 \<noteq> CHR ''-''" "y2 \<noteq> CHR ''-''" "y3 \<noteq> CHR ''-''" "y4 \<noteq> CHR ''-''"
    using assms by (auto dest: digit_not_dash)
  have "split_on CHR ''-'' [d1, d2, CHR ''-'', m1, m2, CHR ''-'', y1, y2, y3, y4]
        = [[d1, d2], [m1, m2], [y1, y2, y3, y4]]"
    using nd by simp
  then show ?thesis by (simp add: parseNavDate_def part_def Let_def)
qed

lemma L10:
  fixes y1 :: char
  shows "[y1, y2, y3, y4, h, m1, m2, h, d1, d2] < [z1, z2, z3, z4, h, n1, n2, h, e1, e2] \<longleftrightarrow>
      (y1 < z1 \<or> y1 = z1 \<and> (y2 < z2 \<or> y2 = z2 \<and> (y3 < z3 \<or> y3 = z3 \<and> (y4 < z4 \<or> y4 = z4 \<and>
      (m1 < n1 \<or> m1 = n1 \<and> (m2 < n2 \<or> m2 = n2 \<and> (d1 < e1 \<or> d1 = e1 \<and> d2 < e2)))))))"
  by (simp only: Cons_less_Cons Nil_less_Cons less_list_code order.irrefl simp_thms)

lemma digits_value_4:
  "digits_value [a, b, c, d]
   = 10 * (10 * (10 * digit_value a + digit_value b) + digit_value c) + digit_value d"
  by (simp add: digits_value_def)

lemma digits_value_2: "digits_value [a, b] = 10 * digit_value a + digit_value b"
  by (simp add: digits_value_def)

lemma four_chars_less:
  assumes "is_digit a" "is_digit b" "is_digit c" "is_digit d"
    "is_digit a'" "is_digit b'" "is_digit c'" "is_digit d'"
  shows "digits_value [a, b, c, d] < digits_value [a', b', c', d'] \<longleftrightarrow>
      (a < a' \<or> a = a' \<and> (b < b' \<or> b = b' \<and> (c < c' \<or> c = c' \<and> d < d')))"
  unfolding digits_value_4
    four_digits_less[OF assms(2,3,4,6,7,8)[THEN digit_value_bound]]
    digit_less_iff[OF assms(1,5)] digit_less_iff[OF assms(2,6)] digit_less_iff[OF assms(3,7)]
    digit_less_iff[OF assms(4,8)] digit_eq_iff[OF assms(1,5)] digit_eq_iff[OF assms(2,6)]
    digit_eq_iff[OF assms(3,7)]
  by (rule refl)

lemma four_chars_eq:
  assumes "is_digit a" "is_digit b" "is_digit c" "is_digit d"
    "is_digit a'" "is_digit b'" "is_digit c'" "is_digit d'"
  shows "digits_value [a, b, c, d] = digits_value [a', b', c', d'] \<longleftrightarrow>
      a = a' \<and> b = b' \<and> c = c' \<and> d = d'"
  unfolding digits_value_4
    four_digits_eq[OF assms(2,3,4,6,7,8)[THEN digit_value_bound]]
    digit_eq_iff[OF assms(1,5)] digit_eq_iff[OF assms(2,6)]
    digit_eq_iff[OF assms(3,7)] digit_eq_iff[OF assms(4,8)]
  by (rule refl)

lemma two_chars_less:
  assumes "is_digit a" "is_digit b" "is_digit a'" "is_digit b'"
  shows "digits_value [a, b] < digits_value [a', b'] \<longleftrightarrow> (a < a' \<or> a = a' \<and> b < b')"
  unfolding digits_value_2 shift_digit_less[OF assms(2,4)[THEN digit_value_bound]]
    digit_less_iff[OF assms(1,3)] digit_less_iff[OF assms(2,4)] digit_eq_iff[OF assms(1,3)]
  by (rule refl)

lemma two_chars_eq:
  assumes "is_digit a" "is_digit b" "is_digit a'" "is_digit b'"
  shows "digits_value [a, b] = digits_value [a', b'] \<longleftrightarrow> a = a' \<and> b = b'"
  unfolding digits_value_2 shift_digit_eq[OF assms(2,4)[THEN digit_value_bound]]
    digit_eq_iff[OF assms(1,3)] digit_eq_iff[OF assms(2,4)]
  by (rule refl)

lemma ymd_shape:
  "ymd_of_ddmmyyyy [d1, d2, h1, m1, m2, h2, y1, y2, y3, y4]
   = (digits_value [y1, y2, y3, y4], digits_value [m1, m2], digits_value [d1, d2])"
  by (simp add: ymd_of_ddmmyyyy_def)

lemma ymd_iso_shape:
  "ymd_of_iso [y1, y2, y3, y4, h1, m1, m2, h2, d1, d2]
   = (digits_value [y1, y2, y3, y4], digits_value [m1, m2], digits_value [d1, d2])"
  by (simp add: ymd_of_iso_def)

lemma prop_date:
  "(A1 \<or> E1 \<and> (A2 \<or> E2 \<and> (A3 \<or> E3 \<and> (A4 \<or> E4 \<and> (B1 \<or> F1 \<and> (B2 \<or> F2 \<and> D))))))
   \<longleftrightarrow> ((A1 \<or> E1 \<and> (A2 \<or> E2 \<and> (A3 \<or> E3 \<and> A4)))
        \<or> (E1 \<and> E2 \<and> E3 \<and> E4) \<and> ((B1 \<or> F1 \<and> B2) \<or> (F1 \<and> F2) \<and> D))"
  by blast

lemma iso_chars_order:
  assumes ds: "is_digit d1" "is_digit d2" "is_digit m1" "is_digit m2"
        "is_digit y1" "is_digit y2" "is_digit y3" "is_digit y4"
    and dt: "is_digit e1" "is_digit e2" "is_digit n1" "is_digit n2"
        "is_digit z1" "is_digit z2" "is_digit z3" "is_digit z4"
  shows "[y1, y2, y3, y4, CHR ''-'', m1, m2, CHR ''-'', d1, d2]
           < [z1, z2, z3, z4, CHR ''-'', n1, n2, CHR ''-'', e1, e2] \<longleftrightarrow>
      (digits_value [y1, y2, y3, y4] < digits_value [z1, z2, z3, z4]
       \<or> digits_value [y1, y2, y3, y4] = digits_value [z1, z2, z3, z4]
         \<and> (digits_value [m1, m2] < digits_value [n1, n2]
            \<or> digits_value [m1, m2] = digits_value [n1, n2]
              \<and> digits_value [d1, d2] < digits_value [e1, e2]))"
proof -
  have a: "digits_value [y1, y2, y3, y4] < digits_value [z1, z2, z3, z4] \<longleftrightarrow>
      (y1 < z1 \<or> y1 = z1 \<and> (y2 < z2 \<or> y2 = z2 \<and> (y3 < z3 \<or> y3 = z3 \<and> y4 < z4)))"
    by (rule four_chars_less[OF ds(5,6,7,8) dt(5,6,7,8)])
  have b: "digits_value [y1, y2, y3, y4] = digits_value [z1, z2, z3, z4] \<longleftrightarrow>
      y1 = z1 \<and> y2 = z2 \<and> y3 = z3 \<and> y4 = z4"
    by (rule four_chars_eq[OF ds(5,6,7,8) dt(5,6,7,8)])
  have c: "digits_value [m1, m2] < digits_value [n1, n2] \<longleftrightarrow> (m1 < n1 \<or> m1 = n1 \<and> m2 < n2)"
    by (rule two_chars_less[OF ds(3,4) dt(3,4)])
  have d: "digits_value [m1, m2] = digits_value [n1, n2] \<longleftrightarrow> m1 = n1 \<and> m2 = n2"
    by (rule two_chars_eq[OF ds(3,4) dt(3,4)])
  have e: "digits_value [d1, d2] < digits_value [e1, e2] \<longleftrightarrow> (d1 < e1 \<or> d1 = e1 \<and> d2 < e2)"
    by (rule two_chars_less[OF ds(1,2) dt(1,2)])
  have l: "[y1, y2, y3, y4, CHR ''-'', m1, m2, CHR ''-'', d1, d2]
           < [z1, z2, z3, z4, CHR ''-'', n1, n2, CHR ''-'', e1, e2] \<longleftrightarrow>
      (y1 < z1 \<or> y1 = z1 \<and> (y2 < z2 \<or> y2 = z2 \<and> (y3 < z3 \<or> y3 = z3 \<and> (y4 < z4 \<or> y4 = z4 \<and>
      (m1 < n1 \<or> m1 = n1 \<and> (m2 < n2 \<or> m2 = n2 \<and> (d1 < e1 \<or> d1 = e1 \<and> d2 < e2)))))))"
    by (rule L10)
  show ?thesis
    by (subst l, subst a, subst b, subst c, subst d, subst e) (rule prop_date)
qed

lemma iso_order:
  assumes "is_ddmmyyyy s" "is_ddmmyyyy t"
  shows "parseNavDate s < parseNavDate t \<longleftrightarrow> earlier s t"
proof -
  note S = ddmmyyyy_shape[OF assms(1)]
  note T = ddmmyyyy_shape[OF assms(2)]
  have ps: "parseNavDate [s ! 0, s ! 1, CHR ''-'', s ! 3, s ! 4, CHR ''-'', s ! 6, s ! 7, s ! 8, s ! 9]
            = [s ! 6, s ! 7, s ! 8, s ! 9, CHR ''-'', s ! 3, s ! 4, CHR ''-'', s ! 0, s ! 1]"
    by (rule parseNavDate_shape[OF S(2-9)])
  have pt: "parseNavDate [t ! 0, t ! 1, CHR ''-'', t ! 3, t ! 4, CHR ''-'', t ! 6, t ! 7, t ! 8, t ! 9]
            = [t ! 6, t ! 7, t ! 8, t ! 9, CHR ''-'', t ! 3, t ! 4, CHR ''-'', t ! 0, t ! 1]"
    by (rule parseNavDate_shape[OF T(2-9)])
  have R: "earlier s t \<longleftrightarrow>
      (digits_value [s ! 6, s ! 7, s ! 8, s ! 9] < digits_value [t ! 6, t ! 7, t ! 8, t ! 9]
       \<or> digits_value [s ! 6, s ! 7, s ! 8, s ! 9] = digits_value [t ! 6, t ! 7, t ! 8, t ! 9]
         \<and> (digits_value [s ! 3, s ! 4] < digits_value [t ! 3, t ! 4]
            \<or> digits_value [s ! 3, s ! 4] = digits_value [t ! 3, t ! 4]
              \<and> digits_value [s ! 0, s ! 1] < digits_value [t ! 0, t ! 1]))"
    unfolding earlier_def ymd_of_ddmmyyyy_def ymd_less_def by (simp only: prod.case)
  have "parseNavDate s < parseNavDate t \<longleftrightarrow>
        parseNavDate [s ! 0, s ! 1, CHR ''-'', s ! 3, s ! 4, CHR ''-'', s ! 6, s ! 7, s ! 8, s ! 9]
        < parseNavDate [t ! 0, t ! 1, CHR ''-'', t ! 3, t ! 4, CHR ''-'', t ! 6, t ! 7, t ! 8, t ! 9]"
    using S(1) T(1) by (rule arg_cong2[where f = "\<lambda>a b. parseNavDate a < parseNavDate b"])
  also have "\<dots> \<longleftrightarrow> earlier s t"
    by (subst ps, subst pt, subst R) (rule iso_chars_order[OF S(2-9) T(2-9)])
  finally show ?thesis .
qed

lemma iso_format:
  assumes "is_ddmmyyyy s"
  shows "is_iso_date (parseNavDate s)" and "ymd_of_iso (parseNavDate s) = ymd_of_ddmmyyyy s"
proof -
  note S = ddmmyyyy_shape[OF assms(1)]
  have ps: "parseNavDate [s ! 0, s ! 1, CHR ''-'', s ! 3, s ! 4, CHR ''-'', s ! 6, s ! 7, s ! 8, s ! 9]
            = [s ! 6, s ! 7, s ! 8, s ! 9, CHR ''-'', s ! 3, s ! 4, CHR ''-'', s ! 0, s ! 1]"
    by (rule parseNavDate_shape[OF S(2-9)])
  have eq: "parseNavDate s
            = [s ! 6, s ! 7, s ! 8, s ! 9, CHR ''-'', s ! 3, s ! 4, CHR ''-'', s ! 0, s ! 1]"
    using S(1) ps by (rule arg_cong[where f = parseNavDate, THEN trans])
  have "is_iso_date [s ! 6, s ! 7, s ! 8, s ! 9, CHR ''-'', s ! 3, s ! 4, CHR ''-'', s ! 0, s ! 1]"
    using S(2-9) by (simp add: is_iso_date_def)
  then show "is_iso_date (parseNavDate s)" by (subst eq)
  have "ymd_of_iso [s ! 6, s ! 7, s ! 8, s ! 9, CHR ''-'', s ! 3, s ! 4, CHR ''-'', s ! 0, s ! 1]
        = ymd_of_ddmmyyyy s"
    unfolding ymd_iso_shape ymd_of_ddmmyyyy_def by (rule refl)
  then show "ymd_of_iso (parseNavDate s) = ymd_of_ddmmyyyy s" by (subst eq)
qed

lemma normalize_navHistory:
  assumes wf: "\<forall>item\<in>set items. is_ddmmyyyy (date item)"
    and desc: "sorted_wrt (\<lambda>a b. earlier (date b) (date a)) items"
    and dat: "data apiResponse = Some items"
  defines "f \<equiv> \<lambda>item. \<lparr>date = parseNavDate (date item), nav = parseFloat (JString (nav item))\<rparr>"
  shows "snd (normalizeSchemeData apiResponse) = rev (map f items)"
    and "sorted_wrt (<) (map date (snd (normalizeSchemeData apiResponse)))"
    and "sorted_wrt (\<lambda>a b. ymd_less (ymd_of_iso (date a)) (ymd_of_iso (date b)))
           (snd (normalizeSchemeData apiResponse))"
    and "\<forall>p\<in>set (snd (normalizeSchemeData apiResponse)). is_iso_date (date p)"
proof -
  have fd: "date (f item) = parseNavDate (date item)" for item by (simp add: f_def)
  have "sorted_wrt (\<lambda>a b. date (f b) < date (f a)) items"
  proof (rule sorted_wrt_mono_rel[OF _ desc])
    fix x y assume "x \<in> set items" "y \<in> set items" "earlier (date y) (date x)"
    then show "date (f y) < date (f x)" using wf by (simp add: fd iso_order)
  qed
  then have d1: "sorted_wrt (\<lambda>a b. date b < date a) (map f items)"
    by (simp add: sorted_wrt_map)
  have nh: "snd (normalizeSchemeData apiResponse) = sort_key date (map f items)"
    by (simp add: normalizeSchemeData_def dat f_def Let_def)
  show eq: "snd (normalizeSchemeData apiResponse) = rev (map f items)"
    unfolding nh by (rule sort_key_descending[OF d1])
  have "sorted_wrt (\<lambda>a b. date a < date b) (rev (map f items))"
    using d1 by (simp add: sorted_wrt_rev)
  then show "sorted_wrt (<) (map date (snd (normalizeSchemeData apiResponse)))"
    unfolding eq by (simp add: sorted_wrt_map)
  have "sorted_wrt (\<lambda>a b. ymd_less (ymd_of_iso (date (f b))) (ymd_of_iso (date (f a)))) items"
  proof (rule sorted_wrt_mono_rel[OF _ desc])
    fix x y assume "x \<in> set items" "y \<in> set items" "earlier (date y) (date x)"
    then show "ymd_less (ymd_of_iso (date (f y))) (ymd_of_iso (date (f x)))"
      using wf by (simp add: fd iso_format(2) earlier_def)
  qed
  then have "sorted_wrt (\<lambda>a b. ymd_less (ymd_of_iso (date b)) (ymd_of_iso (date a))) (map f items)"
    by (simp add: sorted_wrt_map)
  then show "sorted_wrt (\<lambda>a b. ymd_less (ymd_of_iso (date a)) (ymd_of_iso (date b)))
           (snd (normalizeSchemeData apiResponse))"
    unfolding eq by (simp add: sorted_wrt_rev)
  show "\<forall>p\<in>set (snd (normalizeSchemeData apiResponse)). is_iso_date (date p)"
    unfolding eq using wf by (auto simp: fd iso_format(1))
qed

lemma sample_dates:
  "is_ddmmyyyy ''05-02-2024''" "is_ddmmyyyy ''02-01-2024''" "is_ddmmyyyy ''31-12-2023''"
  "earlier ''02-01-2024'' ''05-02-2024''" "earlier ''31-12-2023'' ''05-02-2024''"
  "earlier ''31-12-2023'' ''02-01-2024''"
  "parseNavDate ''05-02-2024'' = ''2024-02-05''" "parseNavDate ''02-01-2024'' = ''2024-01-02''"
  "parseNavDate ''31-12-2023'' = ''2023-12-31''"
  by (simp_all add: is_ddmmyyyy_def is_digit_def earlier_def ymd_less_def ymd_of_ddmmyyyy_def
        digits_value_def digit_value_def parseNavDate_def part_def Let_def)

lemma sample_navs:
  "parseFloat_string ''102.5'' = Num (205 / 2)" "parseFloat_string ''101.25'' = Num (405 / 4)"
  "parseFloat_string ''100.0000'' = Num 100"
  by (simp_all add: parseFloat_string_def parse_unsigned_def is_space_def is_digit_def
        exponent_of_def scale10_def digits_value_def digit_value_def Let_def)

text \<open>
  Claim C6. For an upstream response whose \<open>data\<close> are in descending calendar order (each
  date strictly later than the next) with dates of the form \<open>DD-MM-YYYY\<close>,
  \<open>normalizeSchemeData\<close> returns as \<open>navHistory\<close> the reversed upstream list with each date
  reparsed and each NAV parsed; its dates have the form \<open>YYYY-MM-DD\<close>, denote the same
  calendar days, and are strictly ascending, both as strings and as calendar days.
\<close>

theorem normalizeSchemeData_ascending:
  "data apiResponse = Some items \<and> (\<forall>item\<in>set items. is_ddmmyyyy (date item))
     \<and> sorted_wrt (\<lambda>a b. earlier (date b) (date a)) items \<longrightarrow>
   snd (normalizeSchemeData apiResponse)
     = rev (map (\<lambda>item. \<lparr>date = parseNavDate (date item), nav = parseFloat (JString (nav item))\<rparr>)
              items)
   \<and> sorted_wrt (<) (map date (snd (normalizeSchemeData apiResponse)))
   \<and> sorted_wrt (\<lambda>a b. ymd_less (ymd_of_iso (date a)) (ymd_of_iso (date b)))
         (snd (normalizeSchemeData apiResponse))
   \<and> (\<forall>p\<in>set (snd (normalizeSchemeData apiResponse)). is_iso_date (date p))
   \<and> (\<forall>item\<in>set items. ymd_of_iso (parseNavDate (date item)) = ymd_of_ddmmyyyy (date item))"
  using normalize_navHistory[of items apiResponse] iso_format(2) by blast

theorem normalizeSchemeData_ascending_witness:
  "data \<lparr>meta = \<lparr>scheme_code = 118989, scheme_name = ''X'', fund_house = ''H'',
                  scheme_category = ''C'', scheme_type = ''T''\<rparr>,
         data = Some [\<lparr>date = ''05-02-2024'', nav = ''102.5''\<rparr>,
                      \<lparr>date = ''02-01-2024'', nav = ''101.25''\<rparr>,
                      \<lparr>date = ''31-12-2023'', nav = ''100.0000''\<rparr>]\<rparr>
     = Some [\<lparr>date = ''05-02-2024'', nav = ''102.5''\<rparr>,
             \<lparr>date = ''02-01-2024'', nav = ''101.25''\<rparr>,
             \<lparr>date = ''31-12-2023'', nav = ''100.0000''\<rparr>]
   \<and> is_ddmmyyyy ''05-02-2024'' \<and> is_ddmmyyyy ''02-01-2024'' \<and> is_ddmmyyyy ''31-12-2023''
   \<and> sorted_wrt (\<lambda>a b. earlier (date b) (date a))
         [\<lparr>date = ''05-02-2024'', nav = ''102.5''\<rparr>,
          \<lparr>date = ''02-01-2024'', nav = ''101.25''\<rparr>,
          \<lparr>date = ''31-12-2023'', nav = ''100.0000''\<rparr>]
   \<and> snd (normalizeSchemeData
         \<lparr>meta = \<lparr>scheme_code = 118989, scheme_name = ''X'', fund_house = ''H'',
                  scheme_category = ''C'', scheme_type = ''T''\<rparr>,
          data = Some [\<lparr>date = ''05-02-2024'', nav = ''102.5''\<rparr>,
                       \<lparr>date = ''02-01-2024'', nav = ''101.25''\<rparr>,
                       \<lparr>date = ''31-12-2023'', nav = ''100.0000''\<rparr>]\<rparr>)
     = [\<lparr>date = ''2023-12-31'', nav = Num 100\<rparr>,
        \<lparr>date = ''2024-01-02'', nav = Num (405 / 4)\<rparr>,
        \<lparr>date = ''2024-02-05'', nav = Num (205 / 2)\<rparr>]"
  using normalizeSchemeData_ascending
    [of "\<lparr>meta = \<lparr>scheme_code = 118989, scheme_name = ''X'', fund_house = ''H'',
                  scheme_category = ''C'', scheme_type = ''T''\<rparr>,
          data = Some [\<lparr>date = ''05-02-2024'', nav = ''102.5''\<rparr>,
                       \<lparr>date = ''02-01-2024'', nav = ''101.25''\<rparr>,
                       \<lparr>date = ''31-12-2023'', nav = ''100.0000''\<rparr>]\<rparr>"
        "[\<lparr>date = ''05-02-2024'', nav = ''102.5''\<rparr>,
          \<lparr>date = ''02-01-2024'', nav = ''101.25''\<rparr>,
          \<lparr>date = ''31-12-2023'', nav = ''100.0000''\<rparr>]"]
  by (simp add: sample_dates sample_navs)

section \<open>Properties of the percentile\<close>

lemma floor_eq_ceiling_frac0:
  fixes i :: real
  assumes "\<lfloor>i\<rfloor> = \<lceil>i\<rceil>"
  shows "i - of_int \<lfloor>i\<rfloor> = 0"
proof -
  have "of_int \<lfloor>i\<rfloor> \<le> i" by (rule of_int_floor_le)
  moreover have "i \<le> of_int \<lceil>i\<rceil>" by (rule le_of_int_ceiling)
  moreover have "real_of_int \<lfloor>i\<rfloor> = real_of_int \<lceil>i\<rceil>" using assms by (rule arg_cong)
  ultimately show ?thesis by linarith
qed

lemma calculatePercentile_long:
  assumes len: "2 \<le> length a"
  shows "calculatePercentile a p =
     (let index = (p / 100) * real (length a - 1) in
      if \<lfloor>index\<rfloor> = \<lceil>index\<rceil>
      then (case at_index a \<lfloor>index\<rfloor> of None \<Rightarrow> JUndefined | Some v \<Rightarrow> JNumber (Num v))
      else (case (at_index a \<lfloor>index\<rfloor>, at_index a \<lceil>index\<rceil>) of
              (Some lo, Some hi) \<Rightarrow>
                JNumber (Num (lo * (1 - (index - of_int \<lfloor>index\<rfloor>)) + hi * (index - of_int \<lfloor>index\<rfloor>)))
            | _ \<Rightarrow> JNumber NaN))"
proof -
  have "length a \<noteq> 0" "length a \<noteq> 1" using len by auto
  then show ?thesis
    unfolding calculatePercentile_def Let_def by (simp only: if_False)
qed

lemma calculatePercentile_in_range:
  assumes "0 \<le> p" "p \<le> 100" "a \<noteq> []"
  shows "calculatePercentile a p =
     (let i = p / 100 * real (length a - 1); frac = i - of_int \<lfloor>i\<rfloor>
      in JNumber (Num (a ! nat \<lfloor>i\<rfloor> * (1 - frac) + a ! nat \<lceil>i\<rceil> * frac)))"
proof -
  define n where "n = length a"
  define i where "i = p / 100 * real (n - 1)"
  have n1: "1 \<le> n" using assms(3) by (cases a) (auto simp: n_def)
  have i0: "0 \<le> i" using assms by (simp add: i_def)
  have "p / 100 \<le> 1" using assms by simp
  then have "p / 100 * real (n - 1) \<le> 1 * real (n - 1)"
    by (intro mult_right_mono) auto
  then have iu: "i \<le> real (n - 1)" by (simp add: i_def)
  have fl0: "0 \<le> \<lfloor>i\<rfloor>" using i0 by simp
  have ce: "\<lceil>i\<rceil> \<le> int (n - 1)" using iu by (simp add: ceiling_le_iff)
  have fl: "\<lfloor>i\<rfloor> \<le> \<lceil>i\<rceil>" by (rule floor_le_ceiling)
  have inl: "at_index a \<lfloor>i\<rfloor> = Some (a ! nat \<lfloor>i\<rfloor>)"
    using fl0 fl ce n1 unfolding at_index_def n_def by (simp; linarith)
  have inu: "at_index a \<lceil>i\<rceil> = Some (a ! nat \<lceil>i\<rceil>)"
    using fl0 fl ce n1 unfolding at_index_def n_def by (simp; linarith)
  show ?thesis
  proof (cases "n = 1")
    case True
    then have "i = 0" by (simp add: i_def)
    then show ?thesis using True unfolding Let_def i_def[unfolded n_def, symmetric]
      by (simp add: calculatePercentile_def n_def[symmetric])
  next
    case False
    then have "2 \<le> length a" using n1 by (simp add: n_def)
    note unf = calculatePercentile_long[OF this, of p, unfolded Let_def, folded n_def, folded i_def]
    show ?thesis
    proof (cases "\<lfloor>i\<rfloor> = \<lceil>i\<rceil>")
      case True
      have "i - of_int \<lfloor>i\<rfloor> = 0" by (rule floor_eq_ceiling_frac0[OF True])
      then show ?thesis unfolding Let_def n_def[symmetric] i_def[symmetric] unf
        using True inu by simp
    next
      case F2: False
      then show ?thesis unfolding Let_def n_def[symmetric] i_def[symmetric] unf
        using inl inu by simp
    qed
  qed
qed

text \<open>
  Claim C5. For a sample \<open>a\<close> of size \<open>n\<close> and a percentile \<open>p\<close> between 0 and 100,
  \<open>calculatePercentile\<close> returns the linear interpolation
  \<open>a[\<lfloor>i\<rfloor>] * (1 - frac) + a[\<lceil>i\<rceil>] * frac\<close> with \<open>i = p / 100 * (n - 1)\<close> and
  \<open>frac = i - \<lfloor>i\<rfloor>\<close>; a sample of one element yields that element, the empty sample
  yields \<open>null\<close>, and the 50th percentile of \<open>[10, 20, 30, 40]\<close> is 25.
\<close>

theorem calculatePercentile_linear_interpolation:
  "(0 \<le> p \<and> p \<le> 100 \<and> a \<noteq> [] \<longrightarrow>
      calculatePercentile a p =
        (let i = p / 100 * real (length a - 1); frac = i - of_int \<lfloor>i\<rfloor>
         in JNumber (Num (a ! nat \<lfloor>i\<rfloor> * (1 - frac) + a ! nat \<lceil>i\<rceil> * frac))))
   \<and> calculatePercentile [x] p = JNumber (Num x)
   \<and> calculatePercentile [] p = JNull
   \<and> calculatePercentile [10, 20, 30, 40] 50 = JNumber (Num 25)"
proof (intro conjI impI)
  assume "0 \<le> p \<and> p \<le> 100 \<and> a \<noteq> []"
  then show "calculatePercentile a p =
        (let i = p / 100 * real (length a - 1); frac = i - of_int \<lfloor>i\<rfloor>
         in JNumber (Num (a ! nat \<lfloor>i\<rfloor> * (1 - frac) + a ! nat \<lceil>i\<rceil> * frac)))"
    using calculatePercentile_in_range by blast
next
  show "calculatePercentile [x] p = JNumber (Num x)"
    by (simp add: calculatePercentile_def)
next
  show "calculatePercentile [] p = JNull"
    by (simp add: calculatePercentile_def)
next
  show "calculatePercentile [10, 20, 30, 40] 50 = JNumber (Num 25)"
    by (simp add: calculatePercentile_def at_index_def Let_def)
qed

theorem calculatePercentile_linear_interpolation_witness:
  "(0::real) \<le> 25 \<and> (25::real) \<le> 100 \<and> [1, 2, 4 :: real] \<noteq> []
   \<and> calculatePercentile [1, 2, 4] 25 = JNumber (Num (3 / 2))"
  using calculatePercentile_linear_interpolation [of 25 "[1, 2, 4]"]
  by (simp add: Let_def)

section \<open>Properties of the backfill\<close>

lemma last_key_Max:
  fixes f :: "'a \<Rightarrow> 'k::linorder"
  assumes "xs \<noteq> []" "sorted (map f xs)"
  shows "f (last xs) = Max (f ` set xs)"
proof -
  have "map f xs \<noteq> []" using assms by simp
  have "last (map f xs) = Max (set (map f xs))"
    using assms(2) \<open>map f xs \<noteq> []\<close>
  proof (induction "map f xs" arbitrary: xs rule: rev_induct)
    case Nil then show ?case by simp
  next
    case (snoc x ys)
    have s: "sorted (ys @ [x])" using snoc by simp
    hence "\<forall>y\<in>set ys. y \<le> x" by (simp add: sorted_append)
    hence "Max (set (ys @ [x])) = x" by (auto intro!: Max_eqI)
    thus ?case using snoc(2) by (metis last_snoc)
  qed
  thus ?thesis using assms(1) by (simp add: last_map)
qed

lemma navHistory_props:
  "sorted (map date (snd (normalizeSchemeData apiData)))"
  "length (snd (normalizeSchemeData apiData))
     = length (case data apiData of None \<Rightarrow> [] | Some items \<Rightarrow> items)"
  by (simp_all add: normalizeSchemeData_def Let_def)

lemma endDate_Max:
  assumes "navHistory = snd (normalizeSchemeData apiData)" "navHistory \<noteq> []"
  shows "date (navHistory ! (length navHistory - 1)) = Max (date ` set navHistory)"
  using last_key_Max[of navHistory date] assms navHistory_props(1)[of apiData]
  by (simp add: last_conv_nth)

lemma updateSyncState_row:
  "sync_state db (code, ty) = Some row \<Longrightarrow>
   sync_state (updateSyncState db code ty upd) (code, ty) = Some (upd row)"
  by (simp add: updateSyncState_def)

lemma updateSyncState_other:
  "k \<noteq> (code, ty) \<Longrightarrow> sync_state (updateSyncState db code ty upd) k = sync_state db k"
  by (simp add: updateSyncState_def split: option.splits)

lemma updateSyncState_absent:
  "sync_state db (code, ty) = None \<Longrightarrow> updateSyncState db code ty upd = db"
  by (simp add: updateSyncState_def)

lemma fundsDao_upsert_sync: "sync_state (fundsDao_upsert db fund) = sync_state db"
  by (simp add: fundsDao_upsert_def)

lemma bulkUpsert_sync:
  "bulkUpsert db code recs = (affected, db') \<Longrightarrow> sync_state db' = sync_state db"
  by (auto simp: bulkUpsert_def split: prod.splits if_splits)

lemma backfill_failed_row:
  "sync_state db (code, Backfill) = Some row \<Longrightarrow>
   sync_state (snd (backfill_failed db code message)) (code, Backfill)
     = Some (row\<lparr>status := Failed, error_message := Some message\<rparr>)"
  by (simp add: backfill_failed_def updateSyncState_row)

lemma backfill_failed_other:
  "k \<noteq> (code, Backfill) \<Longrightarrow> sync_state (snd (backfill_failed db code message)) k = sync_state db k"
  by (simp add: backfill_failed_def updateSyncState_other)

lemma backfillScheme_other:
  assumes "k \<noteq> (schemeCode sch, Backfill)"
  shows "sync_state (snd (backfillScheme env sch db)) k = sync_state db k"
  using assms
  by (auto simp: backfillScheme_def Let_def backfill_failed_other updateSyncState_other
      fundsDao_upsert_sync dest!: bulkUpsert_sync
      split: sum.splits prod.splits option.splits)


lemma backfillScheme_success:
  assumes row: "sync_state db (schemeCode sch, Backfill) = Some row"
    and f: "fetch env (schemeCode sch) = Inr apiData"
    and u: "upsertFund_error env (schemeCode sch) = None"
    and n: "snd (normalizeSchemeData apiData) = [] \<or> upsertNav_error env (schemeCode sch) = None"
  defines "navHistory \<equiv> snd (normalizeSchemeData apiData)"
  shows "\<exists>r. sync_state (snd (backfillScheme env sch db)) (schemeCode sch, Backfill) = Some r
           \<and> status r = Completed
           \<and> last_synced_date r
               = (if navHistory = [] then None else Some (Max (date ` set navHistory)))
           \<and> total_records r = length navHistory
           \<and> error_message r = None"
    and "\<exists>affected first. fst (backfillScheme env sch db)
           = Success (schemeCode sch) affected first
               (if navHistory = [] then None else Some (Max (date ` set navHistory)))"
proof -
  obtain m where nm: "normalizeSchemeData apiData = (m, navHistory)"
    by (cases "normalizeSchemeData apiData") (simp add: navHistory_def)
  define db1 where "db1 = updateSyncState db (schemeCode sch) Backfill
                  (\<lambda>row. row\<lparr>status := InProgress, started_at := Some (started_text env),
                             error_message := None\<rparr>)"
  define db2 where "db2 = fundsDao_upsert db1
                                   \<lparr>schemeCode = schemeCode sch, schemeName = schemeName m,
                                    amc = or_else (amc sch) (amc m),
                                    category = or_else (category sch) (category m),
                                    schemeType = schemeType m\<rparr>"
  obtain affected db3 where b: "bulkUpsert db2 (schemeCode sch) navHistory = (affected, db3)"
    by (cases "bulkUpsert db2 (schemeCode sch) navHistory")
  have r3: "sync_state db3 (schemeCode sch, Backfill)
              = Some (row\<lparr>status := InProgress, started_at := Some (started_text env),
                         error_message := None\<rparr>)"
    using bulkUpsert_sync[OF b] row
    by (simp add: db2_def db1_def fundsDao_upsert_sync updateSyncState_row)
  have e: "navHistory \<noteq> [] \<Longrightarrow>
           date (navHistory ! (length navHistory - 1)) = Max (date ` set navHistory)"
    using endDate_Max[of navHistory apiData] by (simp add: navHistory_def)
  have n': "navHistory = [] \<or> upsertNav_error env (schemeCode sch) = None"
    using n by (simp add: navHistory_def)
  have unf: "backfillScheme env sch db
      = (Success (schemeCode sch) affected
           (if length navHistory > 0 then Some (date (navHistory ! 0)) else None)
           (if length navHistory > 0 then Some (date (navHistory ! (length navHistory - 1))) else None),
         updateSyncState db3 (schemeCode sch) Backfill
           (\<lambda>row. row\<lparr>status := Completed,
                      last_synced_date := (if length navHistory > 0
                         then Some (date (navHistory ! (length navHistory - 1))) else None),
                      total_records := length navHistory,
                      completed_at := Some (completed_text env)\<rparr>))"
    using n' b by (auto simp: backfillScheme_def Let_def f u nm db1_def[symmetric] db2_def[symmetric])
  show "\<exists>r. sync_state (snd (backfillScheme env sch db)) (schemeCode sch, Backfill) = Some r
           \<and> status r = Completed
           \<and> last_synced_date r
               = (if navHistory = [] then None else Some (Max (date ` set navHistory)))
           \<and> total_records r = length navHistory
           \<and> error_message r = None"
    using e by (simp add: unf updateSyncState_row[OF r3])
  show "\<exists>affected first. fst (backfillScheme env sch db)
           = Success (schemeCode sch) affected first
               (if navHistory = [] then None else Some (Max (date ` set navHistory)))"
    using e by (simp add: unf)
qed

lemma backfillScheme_failure:
  assumes row: "sync_state db (schemeCode sch, Backfill) = Some row"
    and x: "fetch env (schemeCode sch) = Inl message
            \<or> (fetch env (schemeCode sch) = Inr apiData
                \<and> upsertFund_error env (schemeCode sch) = Some message)
            \<or> (fetch env (schemeCode sch) = Inr apiData
                \<and> upsertFund_error env (schemeCode sch) = None
                \<and> snd (normalizeSchemeData apiData) \<noteq> []
                \<and> upsertNav_error env (schemeCode sch) = Some message)"
  shows "\<exists>r. sync_state (snd (backfillScheme env sch db)) (schemeCode sch, Backfill) = Some r
           \<and> status r = Failed \<and> error_message r = Some message"
    and "fst (backfillScheme env sch db) = Failure (schemeCode sch) message"
proof -
  define db1 where "db1 = updateSyncState db (schemeCode sch) Backfill
                  (\<lambda>row. row\<lparr>status := InProgress, started_at := Some (started_text env),
                             error_message := None\<rparr>)"
  have r1: "sync_state db1 (schemeCode sch, Backfill)
              = Some (row\<lparr>status := InProgress, started_at := Some (started_text env),
                         error_message := None\<rparr>)"
    using row by (simp add: db1_def updateSyncState_row)
  have "\<exists>d. sync_state d (schemeCode sch, Backfill) = sync_state db1 (schemeCode sch, Backfill)
          \<and> backfillScheme env sch db = backfill_failed d (schemeCode sch) message"
    using x
  proof (elim disjE conjE)
    assume "fetch env (schemeCode sch) = Inl message"
    thus ?thesis
      by (intro exI[of _ db1]) (simp add: backfillScheme_def Let_def db1_def)
  next
    assume "fetch env (schemeCode sch) = Inr apiData"
      "upsertFund_error env (schemeCode sch) = Some message"
    thus ?thesis
      by (intro exI[of _ db1]) (simp add: backfillScheme_def Let_def db1_def split: prod.splits)
  next
    assume a: "fetch env (schemeCode sch) = Inr apiData"
      "upsertFund_error env (schemeCode sch) = None"
      "snd (normalizeSchemeData apiData) \<noteq> []"
      "upsertNav_error env (schemeCode sch) = Some message"
    obtain m h where nm: "normalizeSchemeData apiData = (m, h)"
      by (cases "normalizeSchemeData apiData")
    show ?thesis
      using a nm
      by (intro exI[of _ "fundsDao_upsert db1
                                   \<lparr>schemeCode = schemeCode sch, schemeName = schemeName m,
                                    amc = or_else (amc sch) (amc m),
                                    category = or_else (category sch) (category m),
                                    schemeType = schemeType m\<rparr>"])
         (simp add: backfillScheme_def Let_def db1_def fundsDao_upsert_sync)
  qed
  then obtain d where d: "sync_state d (schemeCode sch, Backfill) = sync_state db1 (schemeCode sch, Backfill)"
    "backfillScheme env sch db = backfill_failed d (schemeCode sch) message" by blast
  show "\<exists>r. sync_state (snd (backfillScheme env sch db)) (schemeCode sch, Backfill) = Some r
           \<and> status r = Failed \<and> error_message r = Some message"
    using d r1 by (simp add: backfill_failed_row)
  show "fst (backfillScheme env sch db) = Failure (schemeCode sch) message"
    using d by (simp add: backfill_failed_def)
qed


lemma updateSyncState_nav: "nav_history (updateSyncState db code ty upd) = nav_history db"
  by (simp add: updateSyncState_def split: option.splits)

lemma bulkUpsert_rows_other:
  "fst k \<noteq> code \<Longrightarrow> snd (bulkUpsert_rows code ps table a) k = table k"
  by (induction ps arbitrary: table a) (auto split: option.splits)

lemma bulkUpsert_nav:
  "bulkUpsert db code recs = (affected, db') \<Longrightarrow> fst k \<noteq> code \<Longrightarrow>
   nav_history db' k = nav_history db k"
  using bulkUpsert_rows_other[of k code recs "nav_history db" 0]
  by (auto simp: bulkUpsert_def split: prod.splits if_splits)

lemma backfillScheme_nav:
  assumes "fst k \<noteq> schemeCode sch"
  shows "nav_history (snd (backfillScheme env sch db)) k = nav_history db k"
  using assms
  by (auto simp: backfillScheme_def Let_def backfill_failed_def updateSyncState_nav
      fundsDao_upsert_def dest!: bulkUpsert_nav
      split: sum.splits prod.splits option.splits)

lemma getSyncState_backfill:
  "\<exists>st db1. getSyncState db (schemeCode sch) Backfill (Some sch) = (Inr (Some st), db1)
     \<and> status st = backfill_status db sch
     \<and> sync_state db1 (schemeCode sch, Backfill) = Some st
     \<and> (\<forall>k. k \<noteq> (schemeCode sch, Backfill) \<longrightarrow> sync_state db1 k = sync_state db k)
     \<and> nav_history db1 = nav_history db
     \<and> (backfill_status db sch = Completed \<longrightarrow> db1 = db)"
  by (cases "sync_state db (schemeCode sch, Backfill)")
     (simp_all add: getSyncState_def syncStateDao_findBySchemeAndType_def syncStateDao_create_def
        fundsDao_upsert_def backfill_status_def Let_def)

lemma backfill_status_cong:
  "sync_state db' (schemeCode s, Backfill) = sync_state db (schemeCode s, Backfill) \<Longrightarrow>
   backfill_status db' s = backfill_status db s"
  by (simp add: backfill_status_def)

lemma bulkUpsert_rows_lookup:
  "snd (bulkUpsert_rows code ps table a) (code, d)
   = (case written_nav ps d of Some v \<Rightarrow> Some v | None \<Rightarrow> table (code, d))"
proof (induction ps arbitrary: table a)
  case Nil
  show ?case by (simp add: written_nav_def)
next
  case (Cons p ps)
  have w: "written_nav (p # ps) d
           = (case written_nav ps d of Some v \<Rightarrow> Some v
              | None \<Rightarrow> if d = date p then Some (nav p) else None)"
    by (simp add: written_nav_def map_add_def split: option.splits)
  have "\<exists>t' a'. bulkUpsert_rows code (p # ps) table a = bulkUpsert_rows code ps t' a'
          \<and> t' (code, d) = (if d = date p then Some (nav p) else table (code, d))"
    by (cases "table (code, date p)") auto
  then obtain t' a' where s: "bulkUpsert_rows code (p # ps) table a = bulkUpsert_rows code ps t' a'"
    and t: "t' (code, d) = (if d = date p then Some (nav p) else table (code, d))"
    by blast
  show ?case
    unfolding s Cons.IH[of t' a'] w t by (simp split: option.splits)
qed

lemma bulkUpsert_lookup:
  assumes "bulkUpsert db code recs = (affected, db')"
  shows "nav_history db' (code, d)
         = (case written_nav recs d of Some v \<Rightarrow> Some v | None \<Rightarrow> nav_history db (code, d))"
proof (cases "recs = []")
  case True
  thus ?thesis using assms by (simp add: bulkUpsert_def written_nav_def)
next
  case False
  thus ?thesis
    using assms bulkUpsert_rows_lookup[of code recs "nav_history db" 0 d]
    by (auto simp: bulkUpsert_def split: prod.splits)
qed

lemma written_nav_member:
  "p \<in> set history \<Longrightarrow> written_nav history (date p) \<noteq> None"
proof -
  assume "p \<in> set history"
  hence "date p \<in> fst ` set (rev (map (\<lambda>p. (date p, nav p)) history))"
    by (force simp: image_iff)
  thus ?thesis unfolding written_nav_def map_of_eq_None_iff by blast
qed


lemma backfill_error_None:
  "backfill_error env sch = None \<longleftrightarrow>
     (\<exists>apiData. fetch env (schemeCode sch) = Inr apiData
        \<and> upsertFund_error env (schemeCode sch) = None
        \<and> (snd (normalizeSchemeData apiData) = [] \<or> upsertNav_error env (schemeCode sch) = None))"
  by (auto simp: backfill_error_def split: sum.splits option.splits)

lemma backfill_error_Some:
  "backfill_error env sch = Some message \<longleftrightarrow>
     (fetch env (schemeCode sch) = Inl message
      \<or> (\<exists>apiData. fetch env (schemeCode sch) = Inr apiData
            \<and> (upsertFund_error env (schemeCode sch) = Some message
                \<or> upsertFund_error env (schemeCode sch) = None
                   \<and> snd (normalizeSchemeData apiData) \<noteq> []
                   \<and> upsertNav_error env (schemeCode sch) = Some message)))"
  by (auto simp: backfill_error_def split: sum.splits option.splits)

lemma backfillScheme_completed:
  assumes row: "sync_state db (schemeCode sch, Backfill) = Some row"
    and ok: "backfill_error env sch = None"
  shows "backfill_recorded env sch (snd (backfillScheme env sch db))"
    and "\<exists>affected first final.
           fst (backfillScheme env sch db) = Success (schemeCode sch) affected first final"
proof -
  obtain apiData where f: "fetch env (schemeCode sch) = Inr apiData"
    and u: "upsertFund_error env (schemeCode sch) = None"
    and n: "snd (normalizeSchemeData apiData) = [] \<or> upsertNav_error env (schemeCode sch) = None"
    using ok unfolding backfill_error_None by blast
  define navHistory where "navHistory = snd (normalizeSchemeData apiData)"
  have fh: "fetched_history env sch = navHistory"
    by (simp add: fetched_history_def f navHistory_def)
  obtain m where nm: "normalizeSchemeData apiData = (m, navHistory)"
    by (cases "normalizeSchemeData apiData") (simp add: navHistory_def)
  define db1 where "db1 = updateSyncState db (schemeCode sch) Backfill
                  (\<lambda>row. row\<lparr>status := InProgress, started_at := Some (started_text env),
                             error_message := None\<rparr>)"
  define db2 where "db2 = fundsDao_upsert db1
                                   \<lparr>schemeCode = schemeCode sch, schemeName = schemeName m,
                                    amc = or_else (amc sch) (amc m),
                                    category = or_else (category sch) (category m),
                                    schemeType = schemeType m\<rparr>"
  obtain affected db3 where b: "bulkUpsert db2 (schemeCode sch) navHistory = (affected, db3)"
    by (cases "bulkUpsert db2 (schemeCode sch) navHistory")
  have r3: "sync_state db3 (schemeCode sch, Backfill)
              = Some (row\<lparr>status := InProgress, started_at := Some (started_text env),
                         error_message := None\<rparr>)"
    using bulkUpsert_sync[OF b] row
    by (simp add: db2_def db1_def fundsDao_upsert_sync updateSyncState_row)
  have e: "navHistory \<noteq> [] \<Longrightarrow>
           date (navHistory ! (length navHistory - 1)) = Max (date ` set navHistory)"
    using endDate_Max[of navHistory apiData] by (simp add: navHistory_def)
  have n': "navHistory = [] \<or> upsertNav_error env (schemeCode sch) = None"
    using n by (simp add: navHistory_def)
  have unf: "backfillScheme env sch db
      = (Success (schemeCode sch) affected
           (if length navHistory > 0 then Some (date (navHistory ! 0)) else None)
           (if length navHistory > 0 then Some (date (navHistory ! (length navHistory - 1))) else None),
         updateSyncState db3 (schemeCode sch) Backfill
           (\<lambda>row. row\<lparr>status := Completed,
                      last_synced_date := (if length navHistory > 0
                         then Some (date (navHistory ! (length navHistory - 1))) else None),
                      total_records := length navHistory,
                      completed_at := Some (completed_text env)\<rparr>))"
    using n' b by (auto simp: backfillScheme_def Let_def f u nm db1_def[symmetric] db2_def[symmetric])
  have nav3: "nav_history db3 (schemeCode sch, d)
         = (case written_nav navHistory d of Some v \<Rightarrow> Some v
            | None \<Rightarrow> nav_history db (schemeCode sch, d))" for d
  proof -
    have "nav_history db2 = nav_history db"
      by (simp add: db2_def db1_def fundsDao_upsert_def updateSyncState_nav)
    thus ?thesis using bulkUpsert_lookup[OF b, of d] by (simp split: option.splits)
  qed
  have navs: "list_all (\<lambda>p. nav_history db3 (schemeCode sch, date p)
                              = written_nav navHistory (date p)) navHistory"
    unfolding list_all_iff
  proof
    fix p assume "p \<in> set navHistory"
    from written_nav_member[OF this] obtain v where "written_nav navHistory (date p) = Some v"
      by blast
    thus "nav_history db3 (schemeCode sch, date p) = written_nav navHistory (date p)"
      by (simp add: nav3)
  qed
  show "backfill_recorded env sch (snd (backfillScheme env sch db))"
    using e navs
    by (simp add: backfill_recorded_def ok fh unf updateSyncState_row[OF r3] updateSyncState_nav)
  show "\<exists>affected first final.
           fst (backfillScheme env sch db) = Success (schemeCode sch) affected first final"
    by (simp add: unf)
qed

lemma backfillScheme_failed:
  assumes row: "sync_state db (schemeCode sch, Backfill) = Some row"
    and err: "backfill_error env sch = Some message"
  shows "backfill_recorded env sch (snd (backfillScheme env sch db))"
    and "fst (backfillScheme env sch db) = Failure (schemeCode sch) message"
proof -
  define db1 where "db1 = updateSyncState db (schemeCode sch) Backfill
                  (\<lambda>row. row\<lparr>status := InProgress, started_at := Some (started_text env),
                             error_message := None\<rparr>)"
  have r1: "sync_state db1 (schemeCode sch, Backfill)
              = Some (row\<lparr>status := InProgress, started_at := Some (started_text env),
                         error_message := None\<rparr>)"
    using row by (simp add: db1_def updateSyncState_row)
  have "\<exists>d. sync_state d (schemeCode sch, Backfill) = sync_state db1 (schemeCode sch, Backfill)
          \<and> backfillScheme env sch db = backfill_failed d (schemeCode sch) message"
    using err unfolding backfill_error_Some
  proof (elim disjE exE conjE)
    assume "fetch env (schemeCode sch) = Inl message"
    thus ?thesis
      by (intro exI[of _ db1]) (simp add: backfillScheme_def Let_def db1_def)
  next
    fix apiData
    assume "fetch env (schemeCode sch) = Inr apiData"
      "upsertFund_error env (schemeCode sch) = Some message"
    thus ?thesis
      by (intro exI[of _ db1]) (simp add: backfillScheme_def Let_def db1_def split: prod.splits)
  next
    fix apiData
    assume a: "fetch env (schemeCode sch) = Inr apiData"
      "upsertFund_error env (schemeCode sch) = None"
      "snd (normalizeSchemeData apiData) \<noteq> []"
      "upsertNav_error env (schemeCode sch) = Some message"
    obtain m h where nm: "normalizeSchemeData apiData = (m, h)"
      by (cases "normalizeSchemeData apiData")
    show ?thesis
      using a nm
      by (intro exI[of _ "fundsDao_upsert db1
                                   \<lparr>schemeCode = schemeCode sch, schemeName = schemeName m,
                                    amc = or_else (amc sch) (amc m),
                                    category = or_else (category sch) (category m),
                                    schemeType = schemeType m\<rparr>"])
         (simp add: backfillScheme_def Let_def db1_def fundsDao_upsert_sync)
  qed
  then obtain d where d: "sync_state d (schemeCode sch, Backfill) = sync_state db1 (schemeCode sch, Backfill)"
    "backfillScheme env sch db = backfill_failed d (schemeCode sch) message" by blast
  show "backfill_recorded env sch (snd (backfillScheme env sch db))"
    using d r1 by (simp add: backfill_recorded_def err backfill_failed_row)
  show "fst (backfillScheme env sch db) = Failure (schemeCode sch) message"
    using d by (simp add: backfill_failed_def)
qed

lemma backfill_recorded_cong:
  assumes "sync_state db' (schemeCode sch, Backfill) = sync_state db (schemeCode sch, Backfill)"
    and "\<forall>d. nav_history db' (schemeCode sch, d) = nav_history db (schemeCode sch, d)"
  shows "backfill_recorded env sch db' = backfill_recorded env sch db"
proof -
  have n: "nav_history db' (schemeCode sch, d) = nav_history db (schemeCode sch, d)" for d
    using assms(2) by blast
  show ?thesis unfolding backfill_recorded_def assms(1) n by (rule refl)
qed

lemma backfill_loop_spec:
  assumes "distinct (map schemeCode schemes)"
  shows "\<exists>res' calls' db'.
      backfill_loop env n i schemes res calls db = (Inr res', calls', db')
    \<and> map current calls'
        = map current calls
          @ map fst (filter (\<lambda>(j, s). backfill_status db s \<noteq> Completed) (enumerate (Suc i) schemes))
    \<and> skipped res' = skipped res + length (filter (\<lambda>s. backfill_status db s = Completed) schemes)
    \<and> completed res'
        = completed res
          + length (filter (\<lambda>s. backfill_status db s \<noteq> Completed \<and> backfill_error env s = None)
                      schemes)
    \<and> failed res'
        = failed res
          + length (filter (\<lambda>s. backfill_status db s \<noteq> Completed \<and> backfill_error env s \<noteq> None)
                      schemes)
    \<and> errors res'
        = errors res
          @ map (\<lambda>s. (schemeCode s, the (backfill_error env s)))
              (filter (\<lambda>s. backfill_status db s \<noteq> Completed \<and> backfill_error env s \<noteq> None)
                 schemes)
    \<and> total res' = total res
    \<and> (\<forall>k. (\<forall>s\<in>set schemes. fst k = schemeCode s \<longrightarrow> backfill_status db s = Completed) \<longrightarrow>
           sync_state db' k = sync_state db k
           \<and> (\<forall>d. nav_history db' (fst k, d) = nav_history db (fst k, d)))
    \<and> (\<forall>s\<in>set schemes. backfill_status db s \<noteq> Completed \<longrightarrow> backfill_recorded env s db')"
  using assms
proof (induction schemes arbitrary: i res calls db)
  case Nil
  show ?case by simp
next
  case (Cons sch later)
  have dl: "distinct (map schemeCode later)" and nin: "\<forall>t\<in>set later. schemeCode t \<noteq> schemeCode sch"
    using Cons.prems by (auto simp: image_iff)
  obtain st db1 where g: "getSyncState db (schemeCode sch) Backfill (Some sch) = (Inr (Some st), db1)"
    and st: "status st = backfill_status db sch"
    and row1: "sync_state db1 (schemeCode sch, Backfill) = Some st"
    and fr1: "\<forall>k. k \<noteq> (schemeCode sch, Backfill) \<longrightarrow> sync_state db1 k = sync_state db k"
    and nav1: "nav_history db1 = nav_history db"
    and same: "backfill_status db sch = Completed \<longrightarrow> db1 = db"
    using getSyncState_backfill[of db sch] by blast
  show ?case
  proof (cases "backfill_status db sch = Completed")
    case True
    hence db1: "db1 = db" using same by simp
    define res0 where "res0 = res\<lparr>skipped := skipped res + 1\<rparr>"
    have res0: "skipped res0 = skipped res + 1" "completed res0 = completed res"
      "failed res0 = failed res" "errors res0 = errors res" "total res0 = total res"
      by (simp_all add: res0_def)
    have step: "backfill_loop env n i (sch # later) res calls db
                  = backfill_loop env n (i + 1) later res0 calls db"
      using g st True by (simp add: db1 res0_def)
    obtain res' calls' db' where
      r: "backfill_loop env n (i + 1) later res0 calls db = (Inr res', calls', db')"
      and c: "map current calls' = map current calls
          @ map fst (filter (\<lambda>(j, s). backfill_status db s \<noteq> Completed) (enumerate (Suc (i + 1)) later))"
      and s: "skipped res' = skipped res0
                + length (filter (\<lambda>s. backfill_status db s = Completed) later)"
      and co: "completed res' = completed res0
          + length (filter (\<lambda>s. backfill_status db s \<noteq> Completed \<and> backfill_error env s = None) later)"
      and fa: "failed res' = failed res0
          + length (filter (\<lambda>s. backfill_status db s \<noteq> Completed \<and> backfill_error env s \<noteq> None) later)"
      and er: "errors res' = errors res0
          @ map (\<lambda>s. (schemeCode s, the (backfill_error env s)))
              (filter (\<lambda>s. backfill_status db s \<noteq> Completed \<and> backfill_error env s \<noteq> None) later)"
      and t: "total res' = total res0"
      and fr: "\<forall>k. (\<forall>s\<in>set later. fst k = schemeCode s \<longrightarrow> backfill_status db s = Completed) \<longrightarrow>
           sync_state db' k = sync_state db k
           \<and> (\<forall>d. nav_history db' (fst k, d) = nav_history db (fst k, d))"
      and rec: "\<forall>s\<in>set later. backfill_status db s \<noteq> Completed \<longrightarrow> backfill_recorded env s db'"
      using Cons.IH[OF dl, of "i + 1" res0 calls db] by blast
    have 1: "map current calls' = map current calls
          @ map fst (filter (\<lambda>(j, s). backfill_status db s \<noteq> Completed)
                       (enumerate (Suc i) (sch # later)))"
      using c True by simp
    have 2: "skipped res' = skipped res
               + length (filter (\<lambda>s. backfill_status db s = Completed) (sch # later))"
      using s True by (simp add: res0)
    have 3: "completed res' = completed res
          + length (filter (\<lambda>s. backfill_status db s \<noteq> Completed \<and> backfill_error env s = None)
                      (sch # later))"
      using co True by (simp add: res0)
    have 4: "failed res' = failed res
          + length (filter (\<lambda>s. backfill_status db s \<noteq> Completed \<and> backfill_error env s \<noteq> None)
                      (sch # later))"
      using fa True by (simp add: res0)
    have 5: "errors res' = errors res
          @ map (\<lambda>s. (schemeCode s, the (backfill_error env s)))
              (filter (\<lambda>s. backfill_status db s \<noteq> Completed \<and> backfill_error env s \<noteq> None)
                 (sch # later))"
      using er True by (simp add: res0)
    have 6: "total res' = total res" using t by (simp add: res0)
    have 7: "\<forall>k. (\<forall>s\<in>set (sch # later). fst k = schemeCode s \<longrightarrow> backfill_status db s = Completed) \<longrightarrow>
           sync_state db' k = sync_state db k
           \<and> (\<forall>d. nav_history db' (fst k, d) = nav_history db (fst k, d))"
      using fr by simp
    have 8: "\<forall>s\<in>set (sch # later). backfill_status db s \<noteq> Completed \<longrightarrow> backfill_recorded env s db'"
      using rec True by simp
    show ?thesis
      unfolding step r
      using 1 2 3 4 5 6 7 8 by (intro exI[of _ res'] exI[of _ calls'] exI[of _ db'] conjI refl)
  next
    case False
    obtain result db2 where b: "backfillScheme env sch db1 = (result, db2)"
      by (cases "backfillScheme env sch db1")
    define res1 where "res1 = (case result of
                               Success c r s e \<Rightarrow> res\<lparr>completed := completed res + 1\<rparr>
                             | Failure c message \<Rightarrow>
                                 res\<lparr>failed := failed res + 1,
                                     errors := errors res @ [(schemeCode sch, message)]\<rparr>)"
    define calls1 where "calls1 = calls @ [\<lparr>total = n, completed = completed res1,
        failed = failed res1, skipped = skipped res1, current = i + 1\<rparr>]"
    have step: "backfill_loop env n i (sch # later) res calls db
                  = backfill_loop env n (i + 1) later res1 calls1 db2"
      using g st False b by (simp add: res1_def calls1_def Let_def)
    have rec2: "backfill_recorded env sch db2"
      and res1: "skipped res1 = skipped res" "total res1 = total res"
        "completed res1 = completed res + (if backfill_error env sch = None then 1 else 0)"
        "failed res1 = failed res + (if backfill_error env sch = None then 0 else 1)"
        "errors res1 = errors res
           @ (if backfill_error env sch = None then []
              else [(schemeCode sch, the (backfill_error env sch))])"
    proof -
      show "backfill_recorded env sch db2"
        using backfillScheme_completed(1)[OF row1, of env] backfillScheme_failed(1)[OF row1, of env] b
        by (cases "backfill_error env sch") auto
      show "skipped res1 = skipped res" "total res1 = total res"
        by (cases result; simp add: res1_def)+
      show "completed res1 = completed res + (if backfill_error env sch = None then 1 else 0)"
        "failed res1 = failed res + (if backfill_error env sch = None then 0 else 1)"
        "errors res1 = errors res
           @ (if backfill_error env sch = None then []
              else [(schemeCode sch, the (backfill_error env sch))])"
        using backfillScheme_completed(2)[OF row1, of env] backfillScheme_failed(2)[OF row1, of env] b
        by (cases "backfill_error env sch"; auto simp: res1_def)+
    qed
    have fr2: "k \<noteq> (schemeCode sch, Backfill) \<Longrightarrow> sync_state db2 k = sync_state db k" for k
      using backfillScheme_other[of k sch env db1] b fr1 by simp
    have nav2: "fst k \<noteq> schemeCode sch \<Longrightarrow> nav_history db2 k = nav_history db k" for k
      using backfillScheme_nav[of k sch env db1] b nav1 by simp
    have stat: "backfill_status db2 t = backfill_status db t" if "t \<in> set later" for t
      using that nin by (intro backfill_status_cong fr2) auto
    have f1: "filter (\<lambda>(j, s). backfill_status db2 s \<noteq> Completed) (enumerate m later)
              = filter (\<lambda>(j, s). backfill_status db s \<noteq> Completed) (enumerate m later)" for m
      by (rule filter_cong) (auto simp: stat in_set_enumerate_eq)
    have f2: "filter (\<lambda>s. backfill_status db2 s = Completed) later
              = filter (\<lambda>s. backfill_status db s = Completed) later"
      by (rule filter_cong) (auto simp: stat)
    have f3: "filter (\<lambda>s. backfill_status db2 s \<noteq> Completed \<and> backfill_error env s = None) later
              = filter (\<lambda>s. backfill_status db s \<noteq> Completed \<and> backfill_error env s = None) later"
      by (rule filter_cong) (auto simp: stat)
    have f4: "filter (\<lambda>s. backfill_status db2 s \<noteq> Completed \<and> backfill_error env s \<noteq> None) later
              = filter (\<lambda>s. backfill_status db s \<noteq> Completed \<and> backfill_error env s \<noteq> None) later"
      by (rule filter_cong) (auto simp: stat)
    obtain res' calls' db' where
      r: "backfill_loop env n (i + 1) later res1 calls1 db2 = (Inr res', calls', db')"
      and c: "map current calls' = map current calls1
          @ map fst (filter (\<lambda>(j, s). backfill_status db2 s \<noteq> Completed) (enumerate (Suc (i + 1)) later))"
      and s: "skipped res' = skipped res1
                + length (filter (\<lambda>s. backfill_status db2 s = Completed) later)"
      and co: "completed res' = completed res1
          + length (filter (\<lambda>s. backfill_status db2 s \<noteq> Completed \<and> backfill_error env s = None) later)"
      and fa: "failed res' = failed res1
          + length (filter (\<lambda>s. backfill_status db2 s \<noteq> Completed \<and> backfill_error env s \<noteq> None) later)"
      and er: "errors res' = errors res1
          @ map (\<lambda>s. (schemeCode s, the (backfill_error env s)))
              (filter (\<lambda>s. backfill_status db2 s \<noteq> Completed \<and> backfill_error env s \<noteq> None) later)"
      and t: "total res' = total res1"
      and fr: "\<forall>k. (\<forall>s\<in>set later. fst k = schemeCode s \<longrightarrow> backfill_status db2 s = Completed) \<longrightarrow>
           sync_state db' k = sync_state db2 k
           \<and> (\<forall>d. nav_history db' (fst k, d) = nav_history db2 (fst k, d))"
      and rec: "\<forall>s\<in>set later. backfill_status db2 s \<noteq> Completed \<longrightarrow> backfill_recorded env s db'"
      using Cons.IH[OF dl, of "i + 1" res1 calls1 db2] by blast
    note c = c[unfolded f1] and s = s[unfolded f2] and co = co[unfolded f3]
      and fa = fa[unfolded f4] and er = er[unfolded f4]
    have 1: "map current calls' = map current calls
          @ map fst (filter (\<lambda>(j, s). backfill_status db s \<noteq> Completed)
                       (enumerate (Suc i) (sch # later)))"
      using c False by (simp add: calls1_def)
    have 2: "skipped res' = skipped res
               + length (filter (\<lambda>s. backfill_status db s = Completed) (sch # later))"
      using s False by (simp add: res1)
    have 3: "completed res' = completed res
          + length (filter (\<lambda>s. backfill_status db s \<noteq> Completed \<and> backfill_error env s = None)
                      (sch # later))"
      using co False by (simp add: res1)
    have 4: "failed res' = failed res
          + length (filter (\<lambda>s. backfill_status db s \<noteq> Completed \<and> backfill_error env s \<noteq> None)
                      (sch # later))"
      using fa False by (simp add: res1)
    have 5: "errors res' = errors res
          @ map (\<lambda>s. (schemeCode s, the (backfill_error env s)))
              (filter (\<lambda>s. backfill_status db s \<noteq> Completed \<and> backfill_error env s \<noteq> None)
                 (sch # later))"
      using er False by (simp add: res1)
    have 6: "total res' = total res" using t by (simp add: res1)
    have own: "sync_state db' (schemeCode sch, Backfill) = sync_state db2 (schemeCode sch, Backfill)
               \<and> (\<forall>d. nav_history db' (schemeCode sch, d) = nav_history db2 (schemeCode sch, d))"
    proof -
      have "\<forall>s\<in>set later. fst (schemeCode sch, Backfill) = schemeCode s
              \<longrightarrow> backfill_status db2 s = Completed"
        using nin by auto
      thus ?thesis using fr by (metis fst_conv)
    qed
    have 7: "\<forall>k. (\<forall>s\<in>set (sch # later). fst k = schemeCode s \<longrightarrow> backfill_status db s = Completed) \<longrightarrow>
           sync_state db' k = sync_state db k
           \<and> (\<forall>d. nav_history db' (fst k, d) = nav_history db (fst k, d))"
    proof (intro allI impI)
      fix k :: "string \<times> sync_type"
      assume k: "\<forall>s\<in>set (sch # later). fst k = schemeCode s \<longrightarrow> backfill_status db s = Completed"
      have ne: "fst k \<noteq> schemeCode sch" using k False by auto
      have "\<forall>s\<in>set later. fst k = schemeCode s \<longrightarrow> backfill_status db2 s = Completed"
        using k stat by auto
      hence a: "sync_state db' k = sync_state db2 k"
        and b: "\<And>d. nav_history db' (fst k, d) = nav_history db2 (fst k, d)"
        using fr by blast+
      have "sync_state db2 k = sync_state db k" using ne by (intro fr2) auto
      moreover have "nav_history db2 (fst k, d) = nav_history db (fst k, d)" for d
        using ne by (intro nav2) simp
      ultimately show "sync_state db' k = sync_state db k
           \<and> (\<forall>d. nav_history db' (fst k, d) = nav_history db (fst k, d))"
        using a b by simp
    qed
    have 8: "\<forall>s\<in>set (sch # later). backfill_status db s \<noteq> Completed \<longrightarrow> backfill_recorded env s db'"
    proof (intro ballI impI)
      fix s assume m: "s \<in> set (sch # later)" and nc: "backfill_status db s \<noteq> Completed"
      show "backfill_recorded env s db'"
      proof (cases "s = sch")
        case True
        have "backfill_recorded env sch db' = backfill_recorded env sch db2"
          using own by (intro backfill_recorded_cong) blast+
        thus ?thesis using rec2 True by simp
      next
        case False
        hence l: "s \<in> set later" using m by simp
        thus ?thesis using rec nc stat[OF l] by simp
      qed
    qed
    show ?thesis
      unfolding step r
      using 1 2 3 4 5 6 7 8 by (intro exI[of _ res'] exI[of _ calls'] exI[of _ db'] conjI refl)
  qed
qed

lemma sample_history:
  "snd (normalizeSchemeData
         \<lparr>meta = \<lparr>scheme_code = 118989, scheme_name = ''X'', fund_house = ''H'',
                  scheme_category = ''C'', scheme_type = ''T''\<rparr>,
          data = Some [\<lparr>date = ''05-02-2024'', nav = ''102.5''\<rparr>,
                       \<lparr>date = ''02-01-2024'', nav = ''101.25''\<rparr>,
                       \<lparr>date = ''31-12-2023'', nav = ''100.0000''\<rparr>]\<rparr>)
     = [\<lparr>date = ''2023-12-31'', nav = Num 100\<rparr>,
        \<lparr>date = ''2024-01-02'', nav = Num (405 / 4)\<rparr>,
        \<lparr>date = ''2024-02-05'', nav = Num (205 / 2)\<rparr>]"
  using normalize_navHistory(1)
    [of "[\<lparr>date = ''05-02-2024'', nav = ''102.5''\<rparr>,
          \<lparr>date = ''02-01-2024'', nav = ''101.25''\<rparr>,
          \<lparr>date = ''31-12-2023'', nav = ''100.0000''\<rparr>]"
        "\<lparr>meta = \<lparr>scheme_code = 118989, scheme_name = ''X'', fund_house = ''H'',
                  scheme_category = ''C'', scheme_type = ''T''\<rparr>,
          data = Some [\<lparr>date = ''05-02-2024'', nav = ''102.5''\<rparr>,
                       \<lparr>date = ''02-01-2024'', nav = ''101.25''\<rparr>,
                       \<lparr>date = ''31-12-2023'', nav = ''100.0000''\<rparr>]\<rparr>"]
  by (simp add: sample_dates sample_navs)

lemma sample_last_date:
  "Max (date ` set [\<lparr>date = ''2023-12-31'', nav = Num 100\<rparr>,
        \<lparr>date = ''2024-01-02'', nav = Num (405 / 4)\<rparr>,
        \<lparr>date = ''2024-02-05'', nav = Num (205 / 2)\<rparr>]) = ''2024-02-05''"
proof -
  have "sorted (map date [\<lparr>date = ''2023-12-31'', nav = Num 100\<rparr>,
        \<lparr>date = ''2024-01-02'', nav = Num (405 / 4)\<rparr>,
        \<lparr>date = ''2024-02-05'', nav = Num (205 / 2)\<rparr>])"
    using navHistory_props(1)[of "\<lparr>meta = \<lparr>scheme_code = 118989, scheme_name = ''X'', fund_house = ''H'',
                  scheme_category = ''C'', scheme_type = ''T''\<rparr>,
          data = Some [\<lparr>date = ''05-02-2024'', nav = ''102.5''\<rparr>,
                       \<lparr>date = ''02-01-2024'', nav = ''101.25''\<rparr>,
                       \<lparr>date = ''31-12-2023'', nav = ''100.0000''\<rparr>]\<rparr>"]
    unfolding sample_history .
  from last_key_Max[OF _ this] show ?thesis by simp
qed

text \<open>
  Claim C8. For every scheme whose backfill row of \<open>sync_state\<close> exists (\<open>getSyncState\<close>
  creates it before \<open>backfillAllSchemes\<close> calls \<open>backfillScheme\<close>): when the fetch and the
  writes of the fund and of the NAV rows raise nothing, \<open>backfillScheme\<close> leaves the row
  with status \<open>completed\<close>, \<open>last_synced_date\<close> the greatest date of the fetched history
  (\<open>NULL\<close> for an empty one) and \<open>total_records\<close> its length, and returns success; when
  the fetch, the write of the fund or the write of the NAV rows raises an error, it leaves
  the row with status \<open>failed\<close> and the message of that error as \<open>error_message\<close>, and
  returns the failure with the same message.
\<close>

theorem backfillScheme_sync_state:
  "sync_state db (schemeCode sch, Backfill) = Some row \<longrightarrow>
   ((fetch env (schemeCode sch) = Inr apiData
       \<and> upsertFund_error env (schemeCode sch) = None
       \<and> (snd (normalizeSchemeData apiData) = [] \<or> upsertNav_error env (schemeCode sch) = None)
     \<longrightarrow>
       (\<exists>r. sync_state (snd (backfillScheme env sch db)) (schemeCode sch, Backfill) = Some r
           \<and> status r = Completed
           \<and> last_synced_date r
               = (if snd (normalizeSchemeData apiData) = [] then None
                  else Some (Max (date ` set (snd (normalizeSchemeData apiData)))))
           \<and> total_records r = length (snd (normalizeSchemeData apiData))
           \<and> error_message r = None)
       \<and> (\<exists>affected first. fst (backfillScheme env sch db)
             = Success (schemeCode sch) affected first
                 (if snd (normalizeSchemeData apiData) = [] then None
                  else Some (Max (date ` set (snd (normalizeSchemeData apiData)))))))
    \<and> (fetch env (schemeCode sch) = Inl message
          \<or> (fetch env (schemeCode sch) = Inr apiData
                \<and> upsertFund_error env (schemeCode sch) = Some message)
          \<or> (fetch env (schemeCode sch) = Inr apiData
                \<and> upsertFund_error env (schemeCode sch) = None
                \<and> snd (normalizeSchemeData apiData) \<noteq> []
                \<and> upsertNav_error env (schemeCode sch) = Some message)
     \<longrightarrow>
       (\<exists>r. sync_state (snd (backfillScheme env sch db)) (schemeCode sch, Backfill) = Some r
           \<and> status r = Failed \<and> error_message r = Some message)
       \<and> fst (backfillScheme env sch db) = Failure (schemeCode sch) message))"
  using backfillScheme_success[of db sch row env apiData]
    backfillScheme_failure[of db sch row env message apiData]
  by blast

theorem backfillScheme_sync_state_witness:
  "sync_state \<lparr>funds = Map.empty, nav_history = Map.empty,
               sync_state = [(''118989'', Backfill) \<mapsto>
                 \<lparr>status = Pending, last_synced_date = None, total_records = 0,
                  error_message = None, started_at = None, completed_at = None\<rparr>]\<rparr>
     (schemeCode \<lparr>schemeCode = ''118989'', schemeName = ''X'', amc = ''H'', category = ''C''\<rparr>, Backfill)
     = Some \<lparr>status = Pending, last_synced_date = None, total_records = 0,
             error_message = None, started_at = None, completed_at = None\<rparr>
   \<and> map_option (\<lambda>r. (status r, last_synced_date r, total_records r, error_message r))
        (sync_state
           (snd (backfillScheme
                   \<lparr>fetch = (\<lambda>c. Inr
                       \<lparr>meta = \<lparr>scheme_code = 118989, scheme_name = ''X'', fund_house = ''H'',
                                scheme_category = ''C'', scheme_type = ''T''\<rparr>,
                        data = Some [\<lparr>date = ''05-02-2024'', nav = ''102.5''\<rparr>,
                                     \<lparr>date = ''02-01-2024'', nav = ''101.25''\<rparr>,
                                     \<lparr>date = ''31-12-2023'', nav = ''100.0000''\<rparr>]\<rparr>),
                    upsertFund_error = (\<lambda>c. None), upsertNav_error = (\<lambda>c. None),
                    started_text = ''2024-02-06 01:00:00'', completed_text = ''2024-02-06 01:00:01''\<rparr>
                   \<lparr>schemeCode = ''118989'', schemeName = ''X'', amc = ''H'', category = ''C''\<rparr>
                   \<lparr>funds = Map.empty, nav_history = Map.empty,
                    sync_state = [(''118989'', Backfill) \<mapsto>
                      \<lparr>status = Pending, last_synced_date = None, total_records = 0,
                       error_message = None, started_at = None, completed_at = None\<rparr>]\<rparr>))
           (''118989'', Backfill))
     = Some (Completed, Some ''2024-02-05'', 3, None)
   \<and> map_option (\<lambda>r. (status r, error_message r))
        (sync_state
           (snd (backfillScheme
                   \<lparr>fetch = (\<lambda>c. Inl ''Rate limit timeout while fetching scheme 118989''),
                    upsertFund_error = (\<lambda>c. None), upsertNav_error = (\<lambda>c. None),
                    started_text = ''2024-02-06 01:00:00'', completed_text = ''2024-02-06 01:00:01''\<rparr>
                   \<lparr>schemeCode = ''118989'', schemeName = ''X'', amc = ''H'', category = ''C''\<rparr>
                   \<lparr>funds = Map.empty, nav_history = Map.empty,
                    sync_state = [(''118989'', Backfill) \<mapsto>
                      \<lparr>status = Pending, last_synced_date = None, total_records = 0,
                       error_message = None, started_at = None, completed_at = None\<rparr>]\<rparr>))
           (''118989'', Backfill))
     = Some (Failed, Some ''Rate limit timeout while fetching scheme 118989'')"
  using backfillScheme_sync_state
    [of "\<lparr>funds = Map.empty, nav_history = Map.empty,
               sync_state = [(''118989'', Backfill) \<mapsto>
                 \<lparr>status = Pending, last_synced_date = None, total_records = 0,
                  error_message = None, started_at = None, completed_at = None\<rparr>]\<rparr>"
        "\<lparr>schemeCode = ''118989'', schemeName = ''X'', amc = ''H'', category = ''C''\<rparr>"
        "\<lparr>status = Pending, last_synced_date = None, total_records = 0,
             error_message = None, started_at = None, completed_at = None\<rparr>"
        "\<lparr>fetch = (\<lambda>c. Inr
                       \<lparr>meta = \<lparr>scheme_code = 118989, scheme_name = ''X'', fund_house = ''H'',
                                scheme_category = ''C'', scheme_type = ''T''\<rparr>,
                        data = Some [\<lparr>date = ''05-02-2024'', nav = ''102.5''\<rparr>,
                                     \<lparr>date = ''02-01-2024'', nav = ''101.25''\<rparr>,
                                     \<lparr>date = ''31-12-2023'', nav = ''100.0000''\<rparr>]\<rparr>),
                    upsertFund_error = (\<lambda>c. None), upsertNav_error = (\<lambda>c. None),
                    started_text = ''2024-02-06 01:00:00'', completed_text = ''2024-02-06 01:00:01''\<rparr>"
        "\<lparr>meta = \<lparr>scheme_code = 118989, scheme_name = ''X'', fund_house = ''H'',
                                scheme_category = ''C'', scheme_type = ''T''\<rparr>,
                        data = Some [\<lparr>date = ''05-02-2024'', nav = ''102.5''\<rparr>,
                                     \<lparr>date = ''02-01-2024'', nav = ''101.25''\<rparr>,
                                     \<lparr>date = ''31-12-2023'', nav = ''100.0000''\<rparr>]\<rparr>"
        "''none''"]
    backfillScheme_sync_state
    [of "\<lparr>funds = Map.empty, nav_history = Map.empty,
               sync_state = [(''118989'', Backfill) \<mapsto>
                 \<lparr>status = Pending, last_synced_date = None, total_records = 0,
                  error_message = None, started_at = None, completed_at = None\<rparr>]\<rparr>"
        "\<lparr>schemeCode = ''118989'', schemeName = ''X'', amc = ''H'', category = ''C''\<rparr>"
        "\<lparr>status = Pending, last_synced_date = None, total_records = 0,
             error_message = None, started_at = None, completed_at = None\<rparr>"
        "\<lparr>fetch = (\<lambda>c. Inl ''Rate limit timeout while fetching scheme 118989''),
                    upsertFund_error = (\<lambda>c. None), upsertNav_error = (\<lambda>c. None),
                    started_text = ''2024-02-06 01:00:00'', completed_text = ''2024-02-06 01:00:01''\<rparr>"
        "\<lparr>meta = \<lparr>scheme_code = 118989, scheme_name = ''X'', fund_house = ''H'',
                                scheme_category = ''C'', scheme_type = ''T''\<rparr>,
                        data = None\<rparr>"
        "''Rate limit timeout while fetching scheme 118989''"]
  unfolding sample_history sample_last_date
  by auto

text \<open>
  Without its row (a direct call for a scheme that \<open>getSyncState\<close> has not seen) the three
  updates change nothing, and no state is recorded.
\<close>

lemma backfillScheme_without_row:
  "sync_state db (schemeCode sch, Backfill) = None \<Longrightarrow>
   sync_state (snd (backfillScheme env sch db)) (schemeCode sch, Backfill) = None"
  by (auto simp: backfillScheme_def Let_def backfill_failed_def updateSyncState_def
      fundsDao_upsert_sync dest!: bulkUpsert_sync
      split: sum.splits prod.splits option.splits)

lemma length_filter_split:
  "length (filter (\<lambda>s. P s \<and> Q s) xs) + length (filter (\<lambda>s. P s \<and> \<not> Q s) xs)
   = length (filter P xs)"
  by (induction xs) auto

lemma recorded_status:
  "backfill_recorded env sch db \<Longrightarrow>
   backfill_status db sch = (if backfill_error env sch = None then Completed else Failed)"
  by (cases "backfill_error env sch"; cases "sync_state db (schemeCode sch, Backfill)")
     (auto simp: backfill_recorded_def backfill_status_def)

text \<open>
  Claim C7. For a list of schemes with distinct codes, \<open>backfillAllSchemes\<close> returns its
  summary, and processes exactly the schemes whose backfill status is not \<open>completed\<close>, in
  order: in-progress, failed and pending ones, a scheme without a row being created
  pending. Each of them is handed to \<open>backfillScheme\<close>, which starts from nothing: the
  whole history is fetched and written, and the scheme's row ends \<open>completed\<close>, with the
  greatest date and the length of the fetched history and both time stamps, or, when the
  fetch or a write fails, \<open>failed\<close> with the message, which the summary lists; the
  progress callback reports the scheme's position. The completed ones are counted as
  skipped, and neither their row of \<open>sync_state\<close> nor any of their NAV rows is touched.
  For three schemes found \<open>completed\<close>, \<open>failed\<close> and \<open>pending\<close>, exactly the second and
  the third are processed and one is skipped, whatever the surroundings answer.
\<close>

theorem backfillAllSchemes_resume:
  "(distinct (map schemeCode schemes) \<longrightarrow>
     (\<exists>res calls db'.
        backfillAllSchemes env schemes db = (Inr res, calls, db')
      \<and> map current calls
          = map fst (filter (\<lambda>(j, s). backfill_status db s \<noteq> Completed) (enumerate 1 schemes))
      \<and> skipped res = length (filter (\<lambda>s. backfill_status db s = Completed) schemes)
      \<and> completed res
          = length (filter (\<lambda>s. backfill_status db s \<noteq> Completed \<and> backfill_error env s = None)
                      schemes)
      \<and> failed res
          = length (filter (\<lambda>s. backfill_status db s \<noteq> Completed \<and> backfill_error env s \<noteq> None)
                      schemes)
      \<and> errors res
          = map (\<lambda>s. (schemeCode s, the (backfill_error env s)))
              (filter (\<lambda>s. backfill_status db s \<noteq> Completed \<and> backfill_error env s \<noteq> None)
                 schemes)
      \<and> completed res + failed res
          = length (filter (\<lambda>s. backfill_status db s \<noteq> Completed) schemes)
      \<and> total res = length schemes
      \<and> (\<forall>s\<in>set schemes. backfill_status db s \<noteq> Completed \<longrightarrow>
            backfill_recorded env s db'
            \<and> backfill_status db' s
                = (if backfill_error env s = None then Completed else Failed))
      \<and> (\<forall>s\<in>set schemes. backfill_status db s = Completed \<longrightarrow>
            sync_state db' (schemeCode s, Backfill) = sync_state db (schemeCode s, Backfill)
            \<and> (\<forall>d. nav_history db' (schemeCode s, d) = nav_history db (schemeCode s, d)))))
   \<and> (backfill_status db a = Completed \<and> backfill_status db b = Failed
        \<and> backfill_status db c = Pending \<longrightarrow>
       (\<exists>res calls db'.
          backfillAllSchemes env [a, b, c] db = (Inr res, calls, db')
        \<and> map current calls = [2, 3] \<and> length calls = 2
        \<and> skipped res = 1 \<and> completed res + failed res = 2 \<and> total res = 3
        \<and> sync_state db' (schemeCode a, Backfill) = sync_state db (schemeCode a, Backfill)
        \<and> backfill_recorded env b db' \<and> backfill_recorded env c db'
        \<and> backfill_status db' b = (if backfill_error env b = None then Completed else Failed)
        \<and> backfill_status db' c = (if backfill_error env c = None then Completed else Failed)))"
proof -
  have general: "\<exists>res calls db'.
        backfillAllSchemes env l db = (Inr res, calls, db')
      \<and> map current calls
          = map fst (filter (\<lambda>(j, s). backfill_status db s \<noteq> Completed) (enumerate 1 l))
      \<and> skipped res = length (filter (\<lambda>s. backfill_status db s = Completed) l)
      \<and> completed res
          = length (filter (\<lambda>s. backfill_status db s \<noteq> Completed \<and> backfill_error env s = None) l)
      \<and> failed res
          = length (filter (\<lambda>s. backfill_status db s \<noteq> Completed \<and> backfill_error env s \<noteq> None) l)
      \<and> errors res
          = map (\<lambda>s. (schemeCode s, the (backfill_error env s)))
              (filter (\<lambda>s. backfill_status db s \<noteq> Completed \<and> backfill_error env s \<noteq> None) l)
      \<and> completed res + failed res
          = length (filter (\<lambda>s. backfill_status db s \<noteq> Completed) l)
      \<and> total res = length l
      \<and> (\<forall>s\<in>set l. backfill_status db s \<noteq> Completed \<longrightarrow>
            backfill_recorded env s db'
            \<and> backfill_status db' s
                = (if backfill_error env s = None then Completed else Failed))
      \<and> (\<forall>s\<in>set l. backfill_status db s = Completed \<longrightarrow>
            sync_state db' (schemeCode s, Backfill) = sync_state db (schemeCode s, Backfill)
            \<and> (\<forall>d. nav_history db' (schemeCode s, d) = nav_history db (schemeCode s, d)))"
    if dist: "distinct (map schemeCode l)" for l
  proof -
    let ?res0 = "\<lparr>total = length l, completed = 0, failed = 0, skipped = 0, errors = []\<rparr>"
    obtain res calls db' where
      run: "backfill_loop env (length l) 0 l ?res0 [] db = (Inr res, calls, db')"
      and c: "map current calls = map current ([] :: progress list)
          @ map fst (filter (\<lambda>(j, s). backfill_status db s \<noteq> Completed) (enumerate (Suc 0) l))"
      and s: "skipped res = skipped ?res0
                + length (filter (\<lambda>s. backfill_status db s = Completed) l)"
      and co: "completed res = completed ?res0
          + length (filter (\<lambda>s. backfill_status db s \<noteq> Completed \<and> backfill_error env s = None) l)"
      and fa: "failed res = failed ?res0
          + length (filter (\<lambda>s. backfill_status db s \<noteq> Completed \<and> backfill_error env s \<noteq> None) l)"
      and er: "errors res = errors ?res0
          @ map (\<lambda>s. (schemeCode s, the (backfill_error env s)))
              (filter (\<lambda>s. backfill_status db s \<noteq> Completed \<and> backfill_error env s \<noteq> None) l)"
      and t: "total res = total ?res0"
      and fr: "\<forall>k. (\<forall>s\<in>set l. fst k = schemeCode s \<longrightarrow> backfill_status db s = Completed) \<longrightarrow>
           sync_state db' k = sync_state db k
           \<and> (\<forall>d. nav_history db' (fst k, d) = nav_history db (fst k, d))"
      and rec: "\<forall>s\<in>set l. backfill_status db s \<noteq> Completed \<longrightarrow> backfill_recorded env s db'"
      using backfill_loop_spec[OF dist, of env "length l" 0 ?res0 "[]" db]
      by (elim exE conjE) (rule that; assumption)
    have 1: "map current calls
          = map fst (filter (\<lambda>(j, s). backfill_status db s \<noteq> Completed) (enumerate 1 l))"
      using c by simp
    have 2: "skipped res = length (filter (\<lambda>s. backfill_status db s = Completed) l)"
      using s by simp
    have 3: "completed res
          = length (filter (\<lambda>s. backfill_status db s \<noteq> Completed \<and> backfill_error env s = None) l)"
      using co by simp
    have 4: "failed res
          = length (filter (\<lambda>s. backfill_status db s \<noteq> Completed \<and> backfill_error env s \<noteq> None) l)"
      using fa by simp
    have 5: "errors res
          = map (\<lambda>s. (schemeCode s, the (backfill_error env s)))
              (filter (\<lambda>s. backfill_status db s \<noteq> Completed \<and> backfill_error env s \<noteq> None) l)"
      using er by simp
    have 6: "completed res + failed res
          = length (filter (\<lambda>s. backfill_status db s \<noteq> Completed) l)"
      unfolding 3 4
      using length_filter_split[of "\<lambda>s. backfill_status db s \<noteq> Completed"
              "\<lambda>s. backfill_error env s = None" l]
      by simp
    have 7: "total res = length l" using t by simp
    have 8: "\<forall>s\<in>set l. backfill_status db s \<noteq> Completed \<longrightarrow>
            backfill_recorded env s db'
            \<and> backfill_status db' s
                = (if backfill_error env s = None then Completed else Failed)"
      using rec recorded_status[of env _ db'] by blast
    have 9: "\<forall>s\<in>set l. backfill_status db s = Completed \<longrightarrow>
            sync_state db' (schemeCode s, Backfill) = sync_state db (schemeCode s, Backfill)
            \<and> (\<forall>d. nav_history db' (schemeCode s, d) = nav_history db (schemeCode s, d))"
    proof (intro ballI impI)
      fix s assume mem: "s \<in> set l" and fin: "backfill_status db s = Completed"
      have k: "\<forall>t\<in>set l. fst (schemeCode s, Backfill) = schemeCode t \<longrightarrow> backfill_status db t = Completed"
        using fin by (auto simp: backfill_status_def)
      show "sync_state db' (schemeCode s, Backfill) = sync_state db (schemeCode s, Backfill)
            \<and> (\<forall>d. nav_history db' (schemeCode s, d) = nav_history db (schemeCode s, d))"
        using fr k by (metis fst_conv)
    qed
    show ?thesis
      unfolding backfillAllSchemes_def run
      using 1 2 3 4 5 6 7 8 9
      by (intro exI[of _ res] exI[of _ calls] exI[of _ db'] conjI refl)
  qed
  have scenario: "\<exists>res calls db'.
          backfillAllSchemes env [a, b, c] db = (Inr res, calls, db')
        \<and> map current calls = [2, 3] \<and> length calls = 2
        \<and> skipped res = 1 \<and> completed res + failed res = 2 \<and> total res = 3
        \<and> sync_state db' (schemeCode a, Backfill) = sync_state db (schemeCode a, Backfill)
        \<and> backfill_recorded env b db' \<and> backfill_recorded env c db'
        \<and> backfill_status db' b = (if backfill_error env b = None then Completed else Failed)
        \<and> backfill_status db' c = (if backfill_error env c = None then Completed else Failed)"
    if st: "backfill_status db a = Completed" "backfill_status db b = Failed"
      "backfill_status db c = Pending"
  proof -
    have "schemeCode a \<noteq> schemeCode b" "schemeCode a \<noteq> schemeCode c" "schemeCode b \<noteq> schemeCode c"
      using st by (auto simp: backfill_status_def)
    hence "distinct (map schemeCode [a, b, c])" by simp
    from general[OF this] obtain res calls db' where
      r: "backfillAllSchemes env [a, b, c] db = (Inr res, calls, db')"
      and c: "map current calls
          = map fst (filter (\<lambda>(j, s). backfill_status db s \<noteq> Completed) (enumerate 1 [a, b, c]))"
      and sk: "skipped res = length (filter (\<lambda>s. backfill_status db s = Completed) [a, b, c])"
      and cf: "completed res + failed res
          = length (filter (\<lambda>s. backfill_status db s \<noteq> Completed) [a, b, c])"
      and t: "total res = length [a, b, c]"
      and rec: "\<forall>s\<in>set [a, b, c]. backfill_status db s \<noteq> Completed \<longrightarrow>
            backfill_recorded env s db'
            \<and> backfill_status db' s
                = (if backfill_error env s = None then Completed else Failed)"
      and un: "\<forall>s\<in>set [a, b, c]. backfill_status db s = Completed \<longrightarrow>
            sync_state db' (schemeCode s, Backfill) = sync_state db (schemeCode s, Backfill)
            \<and> (\<forall>d. nav_history db' (schemeCode s, d) = nav_history db (schemeCode s, d))"
      by blast
    have 1: "map current calls = [2, 3]" using c st by simp
    have "length (map current calls) = 2" unfolding 1 by simp
    hence 2: "length calls = 2" by simp
    have 3: "skipped res = 1" using sk st by simp
    have 4: "completed res + failed res = 2" using cf st by simp
    have 5: "total res = 3" using t by simp
    have 6: "sync_state db' (schemeCode a, Backfill) = sync_state db (schemeCode a, Backfill)"
      using un st by simp
    have 7: "backfill_recorded env b db'" "backfill_recorded env c db'"
      "backfill_status db' b = (if backfill_error env b = None then Completed else Failed)"
      "backfill_status db' c = (if backfill_error env c = None then Completed else Failed)"
      using rec st by simp_all
    show ?thesis
      unfolding r using 1 2 3 4 5 6 7
      by (intro exI[of _ res] exI[of _ calls] exI[of _ db'] conjI refl)
  qed
  show ?thesis using general[of schemes] scenario by blast
qed

lemma sample_written:
  "written_nav [\<lparr>date = ''2023-12-31'', nav = Num 100\<rparr>,
        \<lparr>date = ''2024-01-02'', nav = Num (405 / 4)\<rparr>,
        \<lparr>date = ''2024-02-05'', nav = Num (205 / 2)\<rparr>]
   = [''2023-12-31'' \<mapsto> Num 100, ''2024-01-02'' \<mapsto> Num (405 / 4), ''2024-02-05'' \<mapsto> Num (205 / 2)]"
  by (rule ext) (simp add: written_nav_def)

theorem backfillAllSchemes_resume_witness:
  "distinct (map schemeCode
       [\<lparr>schemeCode = ''101'', schemeName = ''A'', amc = ''H'', category = ''C''\<rparr>,
        \<lparr>schemeCode = ''102'', schemeName = ''B'', amc = ''H'', category = ''C''\<rparr>,
        \<lparr>schemeCode = ''103'', schemeName = ''D'', amc = ''H'', category = ''C''\<rparr>])
   \<and> backfill_status
        \<lparr>funds = Map.empty, nav_history = Map.empty,
          sync_state = [(''101'', Backfill) \<mapsto>
                  \<lparr>status = Completed, last_synced_date = None, total_records = 7,
                   error_message = None, started_at = None, completed_at = None\<rparr>,
                        (''102'', Backfill) \<mapsto>
                  \<lparr>status = Failed, last_synced_date = None, total_records = 0,
                   error_message = Some ''timeout'', started_at = None, completed_at = None\<rparr>]\<rparr>
        \<lparr>schemeCode = ''101'', schemeName = ''A'', amc = ''H'', category = ''C''\<rparr> = Completed
   \<and> backfill_status
        \<lparr>funds = Map.empty, nav_history = Map.empty,
          sync_state = [(''101'', Backfill) \<mapsto>
                  \<lparr>status = Completed, last_synced_date = None, total_records = 7,
                   error_message = None, started_at = None, completed_at = None\<rparr>,
                        (''102'', Backfill) \<mapsto>
                  \<lparr>status = Failed, last_synced_date = None, total_records = 0,
                   error_message = Some ''timeout'', started_at = None, completed_at = None\<rparr>]\<rparr>
        \<lparr>schemeCode = ''102'', schemeName = ''B'', amc = ''H'', category = ''C''\<rparr> = Failed
   \<and> backfill_status
        \<lparr>funds = Map.empty, nav_history = Map.empty,
          sync_state = [(''101'', Backfill) \<mapsto>
                  \<lparr>status = Completed, last_synced_date = None, total_records = 7,
                   error_message = None, started_at = None, completed_at = None\<rparr>,
                        (''102'', Backfill) \<mapsto>
                  \<lparr>status = Failed, last_synced_date = None, total_records = 0,
                   error_message = Some ''timeout'', started_at = None, completed_at = None\<rparr>]\<rparr>
        \<lparr>schemeCode = ''103'', schemeName = ''D'', amc = ''H'', category = ''C''\<rparr> = Pending
   \<and> (\<exists>res calls db'.
         backfillAllSchemes
           \<lparr>fetch = (\<lambda>c. if c = ''102'' then Inr
         \<lparr>meta = \<lparr>scheme_code = 118989, scheme_name = ''X'', fund_house = ''H'',
                  scheme_category = ''C'', scheme_type = ''T''\<rparr>,
          data = Some [\<lparr>date = ''05-02-2024'', nav = ''102.5''\<rparr>,
                       \<lparr>date = ''02-01-2024'', nav = ''101.25''\<rparr>,
                       \<lparr>date = ''31-12-2023'', nav = ''100.0000''\<rparr>]\<rparr>
                     else Inl ''Network Error''),
          upsertFund_error = (\<lambda>c. None),
          upsertNav_error = (\<lambda>c. None), started_text = ''2024-02-06 01:00:00'',
          completed_text = ''2024-02-06 01:00:01''\<rparr>
           [\<lparr>schemeCode = ''101'', schemeName = ''A'', amc = ''H'', category = ''C''\<rparr>,
        \<lparr>schemeCode = ''102'', schemeName = ''B'', amc = ''H'', category = ''C''\<rparr>,
        \<lparr>schemeCode = ''103'', schemeName = ''D'', amc = ''H'', category = ''C''\<rparr>]
           \<lparr>funds = Map.empty, nav_history = Map.empty,
          sync_state = [(''101'', Backfill) \<mapsto>
                  \<lparr>status = Completed, last_synced_date = None, total_records = 7,
                   error_message = None, started_at = None, completed_at = None\<rparr>,
                        (''102'', Backfill) \<mapsto>
                  \<lparr>status = Failed, last_synced_date = None, total_records = 0,
                   error_message = Some ''timeout'', started_at = None, completed_at = None\<rparr>]\<rparr>
           = (Inr res, calls, db')
       \<and> map current calls = [2, 3] \<and> length calls = 2
       \<and> skipped res = 1 \<and> completed res = 1 \<and> failed res = 1 \<and> total res = 3
       \<and> errors res = [(''103'', ''Network Error'')]
       \<and> sync_state db' (''101'', Backfill)
           = Some \<lparr>status = Completed, last_synced_date = None, total_records = 7,
                   error_message = None, started_at = None, completed_at = None\<rparr>
       \<and> sync_state db' (''102'', Backfill)
           = Some \<lparr>status = Completed, last_synced_date = Some ''2024-02-05'', total_records = 3,
                   error_message = None, started_at = Some ''2024-02-06 01:00:00'', completed_at = Some ''2024-02-06 01:00:01''\<rparr>
       \<and> nav_history db' (''102'', ''2023-12-31'') = Some (Num 100)
       \<and> nav_history db' (''102'', ''2024-01-02'') = Some (Num (405 / 4))
       \<and> nav_history db' (''102'', ''2024-02-05'') = Some (Num (205 / 2))
       \<and> map_option (\<lambda>row. (status row, error_message row, started_at row))
            (sync_state db' (''103'', Backfill))
           = Some (Failed, Some ''Network Error'', Some ''2024-02-06 01:00:00''))"
proof -
  have e: "backfill_error
           \<lparr>fetch = (\<lambda>c. if c = ''102'' then Inr
         \<lparr>meta = \<lparr>scheme_code = 118989, scheme_name = ''X'', fund_house = ''H'',
                  scheme_category = ''C'', scheme_type = ''T''\<rparr>,
          data = Some [\<lparr>date = ''05-02-2024'', nav = ''102.5''\<rparr>,
                       \<lparr>date = ''02-01-2024'', nav = ''101.25''\<rparr>,
                       \<lparr>date = ''31-12-2023'', nav = ''100.0000''\<rparr>]\<rparr>
                     else Inl ''Network Error''),
          upsertFund_error = (\<lambda>c. None),
          upsertNav_error = (\<lambda>c. None), started_text = ''2024-02-06 01:00:00'',
          completed_text = ''2024-02-06 01:00:01''\<rparr>
           \<lparr>schemeCode = ''102'', schemeName = ''B'', amc = ''H'', category = ''C''\<rparr> = None"
    "backfill_error
           \<lparr>fetch = (\<lambda>c. if c = ''102'' then Inr
         \<lparr>meta = \<lparr>scheme_code = 118989, scheme_name = ''X'', fund_house = ''H'',
                  scheme_category = ''C'', scheme_type = ''T''\<rparr>,
          data = Some [\<lparr>date = ''05-02-2024'', nav = ''102.5''\<rparr>,
                       \<lparr>date = ''02-01-2024'', nav = ''101.25''\<rparr>,
                       \<lparr>date = ''31-12-2023'', nav = ''100.0000''\<rparr>]\<rparr>
                     else Inl ''Network Error''),
          upsertFund_error = (\<lambda>c. None),
          upsertNav_error = (\<lambda>c. None), started_text = ''2024-02-06 01:00:00'',
          completed_text = ''2024-02-06 01:00:01''\<rparr>
           \<lparr>schemeCode = ''103'', schemeName = ''D'', amc = ''H'', category = ''C''\<rparr> = Some ''Network Error''"
    "fetched_history
           \<lparr>fetch = (\<lambda>c. if c = ''102'' then Inr
         \<lparr>meta = \<lparr>scheme_code = 118989, scheme_name = ''X'', fund_house = ''H'',
                  scheme_category = ''C'', scheme_type = ''T''\<rparr>,
          data = Some [\<lparr>date = ''05-02-2024'', nav = ''102.5''\<rparr>,
                       \<lparr>date = ''02-01-2024'', nav = ''101.25''\<rparr>,
                       \<lparr>date = ''31-12-2023'', nav = ''100.0000''\<rparr>]\<rparr>
                     else Inl ''Network Error''),
          upsertFund_error = (\<lambda>c. None),
          upsertNav_error = (\<lambda>c. None), started_text = ''2024-02-06 01:00:00'',
          completed_text = ''2024-02-06 01:00:01''\<rparr>
           \<lparr>schemeCode = ''102'', schemeName = ''B'', amc = ''H'', category = ''C''\<rparr>
     = [\<lparr>date = ''2023-12-31'', nav = Num 100\<rparr>,
        \<lparr>date = ''2024-01-02'', nav = Num (405 / 4)\<rparr>,
        \<lparr>date = ''2024-02-05'', nav = Num (205 / 2)\<rparr>]"
    by (simp_all add: backfill_error_def fetched_history_def sample_history)
  show ?thesis
    using backfillAllSchemes_resume
      [of "[\<lparr>schemeCode = ''101'', schemeName = ''A'', amc = ''H'', category = ''C''\<rparr>,
        \<lparr>schemeCode = ''102'', schemeName = ''B'', amc = ''H'', category = ''C''\<rparr>,
        \<lparr>schemeCode = ''103'', schemeName = ''D'', amc = ''H'', category = ''C''\<rparr>]"
          "\<lparr>fetch = (\<lambda>c. if c = ''102'' then Inr
         \<lparr>meta = \<lparr>scheme_code = 118989, scheme_name = ''X'', fund_house = ''H'',
                  scheme_category = ''C'', scheme_type = ''T''\<rparr>,
          data = Some [\<lparr>date = ''05-02-2024'', nav = ''102.5''\<rparr>,
                       \<lparr>date = ''02-01-2024'', nav = ''101.25''\<rparr>,
                       \<lparr>date = ''31-12-2023'', nav = ''100.0000''\<rparr>]\<rparr>
                     else Inl ''Network Error''),
          upsertFund_error = (\<lambda>c. None),
          upsertNav_error = (\<lambda>c. None), started_text = ''2024-02-06 01:00:00'',
          completed_text = ''2024-02-06 01:00:01''\<rparr>"
          "\<lparr>funds = Map.empty, nav_history = Map.empty,
          sync_state = [(''101'', Backfill) \<mapsto>
                  \<lparr>status = Completed, last_synced_date = None, total_records = 7,
                   error_message = None, started_at = None, completed_at = None\<rparr>,
                        (''102'', Backfill) \<mapsto>
                  \<lparr>status = Failed, last_synced_date = None, total_records = 0,
                   error_message = Some ''timeout'', started_at = None, completed_at = None\<rparr>]\<rparr>"
          "\<lparr>schemeCode = ''101'', schemeName = ''A'', amc = ''H'', category = ''C''\<rparr>"
          "\<lparr>schemeCode = ''102'', schemeName = ''B'', amc = ''H'', category = ''C''\<rparr>"
          "\<lparr>schemeCode = ''103'', schemeName = ''D'', amc = ''H'', category = ''C''\<rparr>"]
    by (auto simp: backfill_status_def backfill_recorded_def e sample_last_date sample_written)
qed

section \<open>Properties of the ranking and of the responses\<close>

lemma below_ten:
  fixes x :: nat
  assumes "x < 10"
  shows "x = 0 \<or> x = 1 \<or> x = 2 \<or> x = 3 \<or> x = 4 \<or> x = 5 \<or> x = 6 \<or> x = 7 \<or> x = 8 \<or> x = 9"
  using assms by arith

lemma digit_char_props: "is_digit (digit_char d)" "digit_value (digit_char d) = d mod 10"
proof -
  have c: "d mod 10 = 0 \<or> d mod 10 = 1 \<or> d mod 10 = 2 \<or> d mod 10 = 3 \<or> d mod 10 = 4
      \<or> d mod 10 = 5 \<or> d mod 10 = 6 \<or> d mod 10 = 7 \<or> d mod 10 = 8 \<or> d mod 10 = 9"
    by (rule below_ten) simp
  show "is_digit (digit_char d)"
    using c by (elim disjE) (simp_all add: digit_char_def is_digit_def)
  show "digit_value (digit_char d) = d mod 10"
    using c by (elim disjE) (simp_all add: digit_char_def digit_value_def)
qed

lemma digits_value_snoc: "digits_value (ds @ [c]) = 10 * digits_value ds + digit_value c"
  by (simp add: digits_value_def)

lemma string_of_nat_props:
  "string_of_nat n \<noteq> [] \<and> (\<forall>c\<in>set (string_of_nat n). is_digit c)
   \<and> digits_value (string_of_nat n) = n"
proof (induction n rule: less_induct)
  case (less n)
  show ?case
  proof (cases "n < 10")
    case True
    thus ?thesis
      by (simp add: string_of_nat_digit digit_char_props digits_value_def)
  next
    case False
    hence ge: "10 \<le> n" by simp
    have "n div 10 < n" using ge by simp
    from less[OF this] show ?thesis
      by (simp add: string_of_nat_more[OF ge] digit_char_props digits_value_snoc)
  qed
qed

lemma digit_not_I: "is_digit c \<Longrightarrow> c \<noteq> CHR ''I'' \<and> c \<noteq> CHR ''+'' \<and> c \<noteq> CHR ''.'' \<and> \<not> is_space c"
  by (auto dest!: digit_cases simp: is_space_def)

lemma parse_unsigned_decimal:
  assumes w: "whole \<noteq> []" "\<forall>c\<in>set whole. is_digit c"
    and f: "\<forall>c\<in>set fraction. is_digit c"
  shows "parse_unsigned (whole @ ''.'' @ fraction)
         = Num (real (digits_value whole) + real (digits_value fraction) / 10 ^ length fraction)"
proof -
  obtain c cs where wc: "whole = c # cs" using w(1) by (cases whole) auto
  have ni: "\<not> starts_with (whole @ ''.'' @ fraction) ''Infinity''"
    using w(2) digit_not_I[of c] by (simp add: wc)
  have tw: "takeWhile is_digit (whole @ ''.'' @ fraction) = whole"
    using w(2) by (simp add: takeWhile_append2 is_digit_def)
  have dw: "dropWhile is_digit (whole @ ''.'' @ fraction) = ''.'' @ fraction"
    using w(2) by (simp add: dropWhile_append2 is_digit_def)
  have tf: "takeWhile is_digit fraction = fraction" using f by simp
  have df: "dropWhile is_digit fraction = []" using f by simp
  show ?thesis
    unfolding parse_unsigned_def Let_def tw dw
    using ni w(1) by (simp add: tf df exponent_of_def scale10_def)
qed

lemma four_digits_mod:
  fixes m :: nat
  shows "digits_value [digit_char (m div 1000), digit_char (m div 100), digit_char (m div 10), digit_char m]
         = m mod 10000"
proof -
  have a: "m mod 10000 = 10 * (m div 10 mod 1000) + m mod 10"
    using mod_mult2_eq[of m 10 1000] by simp
  have b: "m div 10 mod 1000 = 10 * (m div 100 mod 100) + m div 10 mod 10"
    using mod_mult2_eq[of "m div 10" 10 100] by (simp add: div_mult2_eq[symmetric])
  have c: "m div 100 mod 100 = 10 * (m div 1000 mod 10) + m div 100 mod 10"
    using mod_mult2_eq[of "m div 100" 10 10] by (simp add: div_mult2_eq[symmetric])
  have "10 * (10 * (10 * (m div 1000 mod 10) + m div 100 mod 10) + m div 10 mod 10) + m mod 10
        = m mod 10000"
    unfolding a b c by simp
  thus ?thesis by (simp add: digits_value_4 digit_char_props)
qed

lemma parse_decimal_string: "parseFloat_string (decimal_string k) = Num (of_int k / 10000)"
proof -
  define m where "m = nat \<bar>k\<bar>"
  define body where "body = string_of_nat (m div 10000) @ ''.''
         @ [digit_char (m div 1000), digit_char (m div 100), digit_char (m div 10), digit_char m]"
  have sp: "string_of_nat (m div 10000) \<noteq> []" "\<forall>c\<in>set (string_of_nat (m div 10000)). is_digit c"
    "digits_value (string_of_nat (m div 10000)) = m div 10000"
    using string_of_nat_props[of "m div 10000"] by auto
  have "parse_unsigned body
        = Num (real (m div 10000) + real (m mod 10000) / 10 ^ 4)"
    unfolding body_def
    using parse_unsigned_decimal[OF sp(1,2), of "[digit_char (m div 1000), digit_char (m div 100), digit_char (m div 10), digit_char m]"]
    by (simp add: digit_char_props four_digits_mod sp(3))
  moreover have "real (m div 10000) + real (m mod 10000) / 10 ^ 4 = real m / 10000"
  proof -
    have "m = 10000 * (m div 10000) + m mod 10000" by simp
    hence "real m = 10000 * real (m div 10000) + real (m mod 10000)"
      by (metis of_nat_add of_nat_mult of_nat_numeral)
    thus ?thesis by (simp add: field_simps)
  qed
  ultimately have pu: "parse_unsigned body = Num (real m / 10000)" by simp
  obtain c cs where bc: "body = c # cs" and dc: "is_digit c"
    using sp(1,2) unfolding body_def by (cases "string_of_nat (m div 10000)") auto
  have ds: "decimal_string k = (if k < 0 then ''-'' else '''') @ body"
    by (simp add: decimal_string_def Let_def m_def body_def)
  show ?thesis
  proof (cases "k < 0")
    case True
    have "parseFloat_string (''-'' @ body) = js_negate (parse_unsigned body)"
      by (simp add: parseFloat_string_def is_space_def)
    thus ?thesis using True by (simp add: ds pu m_def)
  next
    case False
    have "parseFloat_string body = parse_unsigned body"
      using digit_not_I[OF dc] digit_not_dash[OF dc] by (simp add: parseFloat_string_def bc)
    thus ?thesis using False by (simp add: ds pu m_def)
  qed
qed

lemma decimal_string_nonempty: "decimal_string k \<noteq> []"
  by (simp add: decimal_string_def Let_def)

lemma pow2_pos: "0 < pow2 e"
  by (simp add: pow2_def)

lemma pow2_powr: "pow2 e = 2 powr (real_of_int e)"
  by (simp add: pow2_def powr_real_of_int field_simps)

lemma pow2_add: "pow2 (a + b) = pow2 a * pow2 b"
  by (simp add: pow2_powr powr_add)

lemma binade_bounds:
  assumes "x \<noteq> 0"
  shows "pow2 (binade x) \<le> \<bar>x\<bar>" "\<bar>x\<bar> < pow2 (binade x + 1)"
  using floor_log_eq_powr_iff[of "\<bar>x\<bar>" 2 "binade x"] assms
  by (simp_all add: binade_def pow2_powr)

lemma binade_eq:
  assumes "pow2 e \<le> \<bar>x\<bar>" "\<bar>x\<bar> < pow2 (e + 1)"
  shows "binade x = e"
proof -
  have "0 < \<bar>x\<bar>" using assms(1) pow2_pos[of e] by linarith
  thus ?thesis
    using floor_log_eq_powr_iff[of "\<bar>x\<bar>" 2 e] assms
    by (simp add: binade_def pow2_powr)
qed

lemma round_half_even_near: "\<bar>of_int (round_half_even y) - y\<bar> \<le> 1 / 2"
  unfolding round_half_even_def by (auto; linarith)

lemma double_of_0 [simp]: "double_of 0 = 0"
  by (simp add: double_of_def)

lemma double_of_near: "\<bar>double_of x - x\<bar> \<le> \<bar>x\<bar> / 2 ^ 53"
proof (cases "x = 0")
  case True thus ?thesis by simp
next
  case False
  define s where "s = pow2 (binade x - 52)"
  have sp: "0 < s" by (simp add: s_def pow2_pos)
  have se: "pow2 (binade x) = s * 2 ^ 52"
    using pow2_add[of "binade x - 52" 52] by (simp add: s_def pow2_def)
  have "double_of x - x = (of_int (round_half_even (x / s)) - x / s) * s"
    using sp False by (simp add: double_of_def s_def field_simps)
  hence "\<bar>double_of x - x\<bar> = \<bar>of_int (round_half_even (x / s)) - x / s\<bar> * s"
    using sp by (simp add: abs_mult)
  also have "\<dots> \<le> 1 / 2 * s"
    using round_half_even_near[of "x / s"] sp by (intro mult_right_mono) simp_all
  also have "\<dots> = pow2 (binade x) / 2 ^ 53" by (simp add: se)
  also have "\<dots> \<le> \<bar>x\<bar> / 2 ^ 53"
    using binade_bounds(1)[OF False] by (simp add: divide_right_mono)
  finally show ?thesis .
qed

lemma double_of_eq_0_iff: "double_of x = 0 \<longleftrightarrow> x = 0"
proof
  assume z: "double_of x = 0"
  have "\<bar>x\<bar> \<le> \<bar>x\<bar> / 2 ^ 53" using double_of_near[of x] z by simp
  thus "x = 0" by (simp add: field_simps)
qed simp

lemma round_tenths_near: "\<bar>of_int (round_tenths x) / 10 - x\<bar> \<le> 1 / 20"
proof (cases "x < 0")
  case True
  define n where "n = \<lfloor>- x * 10 + 1 / 2\<rfloor>"
  have a: "real_of_int n \<le> - x * 10 + 1 / 2" "- x * 10 + 1 / 2 < real_of_int n + 1"
    unfolding n_def by linarith+
  have r: "real_of_int (round_tenths x) = - real_of_int n"
    using True by (simp add: round_tenths_def n_def)
  have "\<bar>- real_of_int n / 10 - x\<bar> \<le> 1 / 20"
    using a by (intro abs_leI) linarith+
  thus ?thesis by (simp add: r)
next
  case False
  define n where "n = \<lfloor>x * 10 + 1 / 2\<rfloor>"
  have a: "real_of_int n \<le> x * 10 + 1 / 2" "x * 10 + 1 / 2 < real_of_int n + 1"
    unfolding n_def by linarith+
  have r: "real_of_int (round_tenths x) = real_of_int n"
    using False by (simp add: round_tenths_def n_def)
  have "\<bar>real_of_int n / 10 - x\<bar> \<le> 1 / 20"
    using a by (intro abs_leI) linarith+
  thus ?thesis by (simp add: r)
qed

lemma double_of_value:
  assumes "pow2 e \<le> \<bar>x\<bar>" "\<bar>x\<bar> < pow2 (e + 1)"
  shows "double_of x = of_int (round_half_even (x / pow2 (e - 52))) * pow2 (e - 52)"
proof -
  have "x \<noteq> 0" using assms(1) pow2_pos[of e] by auto
  thus ?thesis by (simp add: double_of_def binade_eq[OF assms])
qed


lemma response_field_text:
  "response_field False c
   = (case c of None \<Rightarrow> JNull
      | Some k \<Rightarrow>
          JNumber (Num (of_int (round_tenths (double_of (double_of (of_int k / 10000) * 100)))
                        / 10)))"
  by (cases c)
     (simp_all add: response_field_def format_percent_def column_value_def decimal_string_nonempty
        parse_decimal_string)

lemma response_field_number:
  "response_field True c
   = (case c of None \<Rightarrow> JNull
      | Some k \<Rightarrow> if k = 0 then JNull
                  else JNumber (Num (of_int (round_tenths
                                      (double_of (double_of (of_int k / 10000) * 100))) / 10)))"
  by (cases c)
     (simp_all add: response_field_def format_percent_def column_value_def double_of_eq_0_iff)

lemma percent_near:
  fixes k :: int
  assumes k: "\<bar>k\<bar> < 10 ^ 10"
  shows "\<bar>real_of_int (round_tenths (double_of (double_of (of_int k / 10000) * 100))) / 10
          - real_of_int k / 100\<bar> \<le> 1 / 20 + 1 / 10 ^ 7"
proof -
  define v :: real where "v = of_int k / 10000"
  define d1 where "d1 = double_of v"
  define p where "p = d1 * 100"
  define d2 where "d2 = double_of p"
  have "\<bar>real_of_int k\<bar> < 10 ^ 10"
    using k by (metis of_int_abs of_int_less_iff of_int_numeral of_int_power)
  hence v: "\<bar>v\<bar> < 10 ^ 6" by (simp add: v_def)
  have e1: "\<bar>d1 - v\<bar> \<le> 10 ^ 6 / 2 ^ 53"
  proof -
    have "\<bar>d1 - v\<bar> \<le> \<bar>v\<bar> / 2 ^ 53" unfolding d1_def by (rule double_of_near)
    also have "\<dots> \<le> 10 ^ 6 / 2 ^ 53" using v by (simp add: divide_right_mono)
    finally show ?thesis .
  qed
  have pv: "\<bar>p - 100 * v\<bar> \<le> 10 ^ 8 / 2 ^ 53"
  proof -
    have h: "p - 100 * v = 100 * (d1 - v)" by (simp add: p_def)
    have "\<bar>p - 100 * v\<bar> = \<bar>100 * (d1 - v)\<bar>" by (simp only: h)
    also have "\<dots> = 100 * \<bar>d1 - v\<bar>" using abs_mult[of 100 "d1 - v"] by simp
    finally show ?thesis using e1 by simp
  qed
  have pb: "\<bar>p\<bar> \<le> 10 ^ 8 + 10 ^ 8 / 2 ^ 53"
  proof -
    have "\<bar>p\<bar> \<le> \<bar>p - 100 * v\<bar> + \<bar>100 * v\<bar>" by linarith
    moreover have "\<bar>100 * v\<bar> \<le> 10 ^ 8" using v by (simp add: abs_mult)
    ultimately show ?thesis using pv by linarith
  qed
  have e2: "\<bar>d2 - p\<bar> \<le> (10 ^ 8 + 10 ^ 8 / 2 ^ 53) / 2 ^ 53"
  proof -
    have "\<bar>d2 - p\<bar> \<le> \<bar>p\<bar> / 2 ^ 53" unfolding d2_def by (rule double_of_near)
    also have "\<dots> \<le> (10 ^ 8 + 10 ^ 8 / 2 ^ 53) / 2 ^ 53"
      using pb by (intro divide_right_mono) simp_all
    finally show ?thesis .
  qed
  have "\<bar>d2 - 100 * v\<bar> \<le> (10 ^ 8 + 10 ^ 8 / 2 ^ 53) / 2 ^ 53 + 10 ^ 8 / 2 ^ 53"
    using e2 pv by linarith
  also have "\<dots> \<le> 1 / 10 ^ 7" by simp
  finally have d: "\<bar>d2 - 100 * v\<bar> \<le> 1 / 10 ^ 7" .
  have "\<bar>of_int (round_tenths d2) / 10 - d2\<bar> \<le> 1 / 20" by (rule round_tenths_near)
  hence "\<bar>of_int (round_tenths d2) / 10 - 100 * v\<bar> \<le> 1 / 20 + 1 / 10 ^ 7"
    using d by linarith
  moreover have "100 * v = of_int k / 100" by (simp add: v_def)
  ultimately show ?thesis by (simp add: d2_def p_def d1_def v_def)
qed

lemma candidates_props:
  assumes "x \<in> set (rank_candidates like windowType column fundsTable analyticsTable latest)"
  shows "column (stats x) \<noteq> None" "like (rank_category x)"
    "analyticsTable (rank_scheme_code x, windowType) = Some (stats x)"
  using assms
  by (auto simp: rank_candidates_def List.map_filter_def split: if_splits option.splits)

lemma precedes_values:
  "x \<noteq> None \<Longrightarrow> y \<noteq> None \<Longrightarrow>
   precedes ASC x y = (\<exists>a b. x = Some a \<and> y = Some b \<and> a \<le> b)"
  "x \<noteq> None \<Longrightarrow> y \<noteq> None \<Longrightarrow>
   precedes DESC x y = (\<exists>a b. x = Some a \<and> y = Some b \<and> b \<le> a)"
  by auto

lemma ranked_props:
  assumes run: "rankByMetric served like sortBy windowType limit fundsTable analyticsTable latest
                  = Inr ranked"
    and col: "sortColumn sortBy = Some column"
    and ok: "order_by_respected ord column served
               (rank_candidates like windowType column fundsTable analyticsTable latest)"
  defines "cands \<equiv> rank_candidates like windowType column fundsTable analyticsTable latest"
  shows "ranked = take limit (served cands)"
    and "sorted_wrt (\<lambda>x y. precedes ord (column (stats x)) (column (stats y))) ranked"
    and "length ranked = min limit (length cands)"
    and "mset ranked \<subseteq># mset cands"
    and "\<forall>x\<in>set ranked. column (stats x) \<noteq> None \<and> like (rank_category x)
           \<and> analyticsTable (rank_scheme_code x, windowType) = Some (stats x)"
proof -
  show r: "ranked = take limit (served cands)"
    using run col by (simp add: rankByMetric_def cands_def)
  have m: "mset (served cands) = mset cands"
    and s: "sorted_wrt (\<lambda>x y. precedes ord (column (stats x)) (column (stats y))) (served cands)"
    using ok by (simp_all add: order_by_respected_def cands_def)
  show "sorted_wrt (\<lambda>x y. precedes ord (column (stats x)) (column (stats y))) ranked"
    unfolding r using s by (rule sorted_wrt_take)
  have "length (served cands) = length cands"
    using m by (metis size_mset)
  thus "length ranked = min limit (length cands)"
    unfolding r by (simp add: min.commute)
  have "mset (take limit (served cands)) \<subseteq># mset (served cands)"
    by (metis append_take_drop_id mset_append mset_subset_eq_add_left)
  thus sub: "mset ranked \<subseteq># mset cands" unfolding r m .
  have "set ranked \<subseteq> set cands"
    using sub by (metis set_mset_mono set_mset_mset)
  thus "\<forall>x\<in>set ranked. column (stats x) \<noteq> None \<and> like (rank_category x)
           \<and> analyticsTable (rank_scheme_code x, windowType) = Some (stats x)"
    using candidates_props[of _ like windowType column fundsTable analyticsTable latest]
    unfolding cands_def by blast
qed

lemma sorted_wrt_values:
  assumes s: "sorted_wrt (\<lambda>x y. precedes ord (column (stats x)) (column (stats y))) ranked"
    and nn: "\<forall>x\<in>set ranked. column (stats x) \<noteq> None"
  shows "ord = ASC \<Longrightarrow>
         sorted_wrt (\<lambda>x y. \<exists>a b. column (stats x) = Some a \<and> column (stats y) = Some b \<and> a \<le> b) ranked"
    and "ord = DESC \<Longrightarrow>
         sorted_wrt (\<lambda>x y. \<exists>a b. column (stats x) = Some a \<and> column (stats y) = Some b \<and> b \<le> a) ranked"
proof -
  assume "ord = ASC"
  show "sorted_wrt (\<lambda>x y. \<exists>a b. column (stats x) = Some a \<and> column (stats y) = Some b \<and> a \<le> b) ranked"
  proof (rule sorted_wrt_mono_rel[OF _ s])
    fix x y assume "x \<in> set ranked" "y \<in> set ranked"
      "precedes ord (column (stats x)) (column (stats y))"
    thus "\<exists>a b. column (stats x) = Some a \<and> column (stats y) = Some b \<and> a \<le> b"
      using nn \<open>ord = ASC\<close> precedes_values(1)[of "column (stats x)" "column (stats y)"] by blast
  qed
next
  assume "ord = DESC"
  show "sorted_wrt (\<lambda>x y. \<exists>a b. column (stats x) = Some a \<and> column (stats y) = Some b \<and> b \<le> a) ranked"
  proof (rule sorted_wrt_mono_rel[OF _ s])
    fix x y assume "x \<in> set ranked" "y \<in> set ranked"
      "precedes ord (column (stats x)) (column (stats y))"
    thus "\<exists>a b. column (stats x) = Some a \<and> column (stats y) = Some b \<and> b \<le> a"
      using nn \<open>ord = DESC\<close> precedes_values(2)[of "column (stats x)" "column (stats y)"] by blast
  qed
qed

text \<open>
  Claim C9. When the statement is well formed (the sort key is not the name of a property
  that every object inherits, such as \<open>constructor\<close>) and the server respects its
  \<open>ORDER BY\<close>, the rows that \<open>rankByMetric\<close> returns are in ascending order of
  \<open>max_drawdown\<close> when sorting by \<open>max_drawdown\<close>, and in descending order of the sort
  column otherwise (the median return for \<open>median_return\<close> and for any other word that the
  map does not know, the median CAGR for \<open>cagr_median\<close>); they are the first \<open>limit\<close> of the selected rows in that order, each
  with a matching category and a sort column that is not \<open>NULL\<close>. Rows that agree on the
  sort column come in the order the server chooses.
\<close>

theorem rankByMetric_ordering:
  "rankByMetric served like sortBy windowType limit fundsTable analyticsTable latest = Inr ranked
   \<and> sortColumn sortBy = Some column
   \<and> order_by_respected (sortOrder sortBy) column served
        (rank_candidates like windowType column fundsTable analyticsTable latest)
   \<longrightarrow>
     (sortBy = ''max_drawdown'' \<longrightarrow>
        column = max_drawdown
        \<and> sorted_wrt (\<lambda>x y. \<exists>a b. max_drawdown (stats x) = Some a
                              \<and> max_drawdown (stats y) = Some b \<and> a \<le> b) ranked)
   \<and> (sortBy = ''cagr_median'' \<longrightarrow>
        column = cagr_median
        \<and> sorted_wrt (\<lambda>x y. \<exists>a b. cagr_median (stats x) = Some a
                              \<and> cagr_median (stats y) = Some b \<and> b \<le> a) ranked)
   \<and> (sortBy \<noteq> ''max_drawdown'' \<and> sortBy \<noteq> ''cagr_median'' \<longrightarrow>
        column = rolling_return_median
        \<and> sorted_wrt (\<lambda>x y. \<exists>a b. rolling_return_median (stats x) = Some a
                              \<and> rolling_return_median (stats y) = Some b \<and> b \<le> a) ranked)
   \<and> ranked = take limit
        (served (rank_candidates like windowType column fundsTable analyticsTable latest))
   \<and> length ranked
       = min limit (length (rank_candidates like windowType column fundsTable analyticsTable latest))
   \<and> mset ranked \<subseteq># mset (rank_candidates like windowType column fundsTable analyticsTable latest)
   \<and> (\<forall>x\<in>set ranked. column (stats x) \<noteq> None \<and> like (rank_category x)
         \<and> analyticsTable (rank_scheme_code x, windowType) = Some (stats x))"
proof (intro impI, elim conjE)
  assume run: "rankByMetric served like sortBy windowType limit fundsTable analyticsTable latest
                 = Inr ranked"
    and col: "sortColumn sortBy = Some column"
    and ok: "order_by_respected (sortOrder sortBy) column served
        (rank_candidates like windowType column fundsTable analyticsTable latest)"
  note P = ranked_props[OF run col ok]
  have nn: "\<forall>x\<in>set ranked. column (stats x) \<noteq> None" using P(5) by blast
  note V = sorted_wrt_values[OF P(2) nn]
  have dd: "sortBy = ''max_drawdown'' \<longrightarrow>
        column = max_drawdown
        \<and> sorted_wrt (\<lambda>x y. \<exists>a b. max_drawdown (stats x) = Some a
                              \<and> max_drawdown (stats y) = Some b \<and> a \<le> b) ranked"
  proof
    assume sb: "sortBy = ''max_drawdown''"
    have c: "column = max_drawdown" using col by (simp add: sortColumn_def sb)
    have "sortOrder sortBy = ASC" by (simp add: sortOrder_def sb)
    from V(1)[OF this] show "column = max_drawdown
        \<and> sorted_wrt (\<lambda>x y. \<exists>a b. max_drawdown (stats x) = Some a
                              \<and> max_drawdown (stats y) = Some b \<and> a \<le> b) ranked"
      using c by simp
  qed
  have cg: "sortBy = ''cagr_median'' \<longrightarrow>
        column = cagr_median
        \<and> sorted_wrt (\<lambda>x y. \<exists>a b. cagr_median (stats x) = Some a
                              \<and> cagr_median (stats y) = Some b \<and> b \<le> a) ranked"
  proof
    assume sb: "sortBy = ''cagr_median''"
    have c: "column = cagr_median" using col by (simp add: sortColumn_def sb)
    have "sortOrder sortBy = DESC" by (simp add: sortOrder_def sb)
    from V(2)[OF this] show "column = cagr_median
        \<and> sorted_wrt (\<lambda>x y. \<exists>a b. cagr_median (stats x) = Some a
                              \<and> cagr_median (stats y) = Some b \<and> b \<le> a) ranked"
      using c by simp
  qed
  have md: "sortBy \<noteq> ''max_drawdown'' \<and> sortBy \<noteq> ''cagr_median'' \<longrightarrow>
        column = rolling_return_median
        \<and> sorted_wrt (\<lambda>x y. \<exists>a b. rolling_return_median (stats x) = Some a
                              \<and> rolling_return_median (stats y) = Some b \<and> b \<le> a) ranked"
  proof
    assume sb: "sortBy \<noteq> ''max_drawdown'' \<and> sortBy \<noteq> ''cagr_median''"
    have c: "column = rolling_return_median"
      using col sb by (auto simp: sortColumn_def split: if_splits)
    have "sortOrder sortBy = DESC" using sb by (simp add: sortOrder_def)
    from V(2)[OF this] show "column = rolling_return_median
        \<and> sorted_wrt (\<lambda>x y. \<exists>a b. rolling_return_median (stats x) = Some a
                              \<and> rolling_return_median (stats y) = Some b \<and> b \<le> a) ranked"
      using c by simp
  qed
  show "(sortBy = ''max_drawdown'' \<longrightarrow>
        column = max_drawdown
        \<and> sorted_wrt (\<lambda>x y. \<exists>a b. max_drawdown (stats x) = Some a
                              \<and> max_drawdown (stats y) = Some b \<and> a \<le> b) ranked)
   \<and> (sortBy = ''cagr_median'' \<longrightarrow>
        column = cagr_median
        \<and> sorted_wrt (\<lambda>x y. \<exists>a b. cagr_median (stats x) = Some a
                              \<and> cagr_median (stats y) = Some b \<and> b \<le> a) ranked)
   \<and> (sortBy \<noteq> ''max_drawdown'' \<and> sortBy \<noteq> ''cagr_median'' \<longrightarrow>
        column = rolling_return_median
        \<and> sorted_wrt (\<lambda>x y. \<exists>a b. rolling_return_median (stats x) = Some a
                              \<and> rolling_return_median (stats y) = Some b \<and> b \<le> a) ranked)
   \<and> ranked = take limit
        (served (rank_candidates like windowType column fundsTable analyticsTable latest))
   \<and> length ranked
       = min limit (length (rank_candidates like windowType column fundsTable analyticsTable latest))
   \<and> mset ranked \<subseteq># mset (rank_candidates like windowType column fundsTable analyticsTable latest)
   \<and> (\<forall>x\<in>set ranked. column (stats x) \<noteq> None \<and> like (rank_category x)
         \<and> analyticsTable (rank_scheme_code x, windowType) = Some (stats x))"
    using dd cg md P(1,3,4,5) by blast
qed

lemma sample_candidates:
  "(rank_candidates (\<lambda>c. js_includes c ''Mid Cap'') W1Y rolling_return_median
         [(''300'', \<lparr>row_scheme_name = ''F300'', row_amc = ''H'', row_category = ''Mid Cap'', row_scheme_type = None\<rparr>),
          (''100'', \<lparr>row_scheme_name = ''F100'', row_amc = ''H'', row_category = ''Mid Cap'', row_scheme_type = None\<rparr>),
          (''200'', \<lparr>row_scheme_name = ''F200'', row_amc = ''H'', row_category = ''Mid Cap'', row_scheme_type = None\<rparr>)]
         [(''300'', W1Y) \<mapsto>
            \<lparr>rolling_return_min = None, rolling_return_max = None,
             rolling_return_median = Some 2100, rolling_return_p25 = None,
             rolling_return_p75 = None, max_drawdown = Some (- 3000), cagr_min = None,
             cagr_max = None, cagr_median = None\<rparr>,
          (''100'', W1Y) \<mapsto>
            \<lparr>rolling_return_min = None, rolling_return_max = None,
             rolling_return_median = Some 1250, rolling_return_p25 = None,
             rolling_return_p75 = None, max_drawdown = Some (- 1500), cagr_min = None,
             cagr_max = None, cagr_median = None\<rparr>,
          (''200'', W1Y) \<mapsto>
            \<lparr>rolling_return_min = None, rolling_return_max = None,
             rolling_return_median = Some 900, rolling_return_p25 = None,
             rolling_return_p75 = None, max_drawdown = Some (- 2000), cagr_min = None,
             cagr_max = None, cagr_median = None\<rparr>]
         (\<lambda>c. None))
   = [\<lparr>rank_scheme_code = ''300'', rank_scheme_name = ''F300'', rank_amc = ''H'',
           rank_category = ''Mid Cap'',
           stats = \<lparr>rolling_return_min = None, rolling_return_max = None,
             rolling_return_median = Some 2100, rolling_return_p25 = None,
             rolling_return_p75 = None, max_drawdown = Some (- 3000), cagr_min = None,
             cagr_max = None, cagr_median = None\<rparr>,
           latest_nav = None, latest_nav_date = None\<rparr>,
      \<lparr>rank_scheme_code = ''100'', rank_scheme_name = ''F100'', rank_amc = ''H'',
           rank_category = ''Mid Cap'',
           stats = \<lparr>rolling_return_min = None, rolling_return_max = None,
             rolling_return_median = Some 1250, rolling_return_p25 = None,
             rolling_return_p75 = None, max_drawdown = Some (- 1500), cagr_min = None,
             cagr_max = None, cagr_median = None\<rparr>,
           latest_nav = None, latest_nav_date = None\<rparr>,
      \<lparr>rank_scheme_code = ''200'', rank_scheme_name = ''F200'', rank_amc = ''H'',
           rank_category = ''Mid Cap'',
           stats = \<lparr>rolling_return_min = None, rolling_return_max = None,
             rolling_return_median = Some 900, rolling_return_p25 = None,
             rolling_return_p75 = None, max_drawdown = Some (- 2000), cagr_min = None,
             cagr_max = None, cagr_median = None\<rparr>,
           latest_nav = None, latest_nav_date = None\<rparr>]"
  by (simp add: rank_candidates_def List.map_filter_def)

theorem rankByMetric_ordering_witness:
  "rankByMetric (\<lambda>rows. rows) (\<lambda>c. js_includes c ''Mid Cap'') ''median_return'' W1Y 2
         [(''300'', \<lparr>row_scheme_name = ''F300'', row_amc = ''H'', row_category = ''Mid Cap'', row_scheme_type = None\<rparr>),
          (''100'', \<lparr>row_scheme_name = ''F100'', row_amc = ''H'', row_category = ''Mid Cap'', row_scheme_type = None\<rparr>),
          (''200'', \<lparr>row_scheme_name = ''F200'', row_amc = ''H'', row_category = ''Mid Cap'', row_scheme_type = None\<rparr>)]
         [(''300'', W1Y) \<mapsto>
            \<lparr>rolling_return_min = None, rolling_return_max = None,
             rolling_return_median = Some 2100, rolling_return_p25 = None,
             rolling_return_p75 = None, max_drawdown = Some (- 3000), cagr_min = None,
             cagr_max = None, cagr_median = None\<rparr>,
          (''100'', W1Y) \<mapsto>
            \<lparr>rolling_return_min = None, rolling_return_max = None,
             rolling_return_median = Some 1250, rolling_return_p25 = None,
             rolling_return_p75 = None, max_drawdown = Some (- 1500), cagr_min = None,
             cagr_max = None, cagr_median = None\<rparr>,
          (''200'', W1Y) \<mapsto>
            \<lparr>rolling_return_min = None, rolling_return_max = None,
             rolling_return_median = Some 900, rolling_return_p25 = None,
             rolling_return_p75 = None, max_drawdown = Some (- 2000), cagr_min = None,
             cagr_max = None, cagr_median = None\<rparr>]
         (\<lambda>c. None)
     = Inr [\<lparr>rank_scheme_code = ''300'', rank_scheme_name = ''F300'', rank_amc = ''H'',
           rank_category = ''Mid Cap'',
           stats = \<lparr>rolling_return_min = None, rolling_return_max = None,
             rolling_return_median = Some 2100, rolling_return_p25 = None,
             rolling_return_p75 = None, max_drawdown = Some (- 3000), cagr_min = None,
             cagr_max = None, cagr_median = None\<rparr>,
           latest_nav = None, latest_nav_date = None\<rparr>,
          \<lparr>rank_scheme_code = ''100'', rank_scheme_name = ''F100'', rank_amc = ''H'',
           rank_category = ''Mid Cap'',
           stats = \<lparr>rolling_return_min = None, rolling_return_max = None,
             rolling_return_median = Some 1250, rolling_return_p25 = None,
             rolling_return_p75 = None, max_drawdown = Some (- 1500), cagr_min = None,
             cagr_max = None, cagr_median = None\<rparr>,
           latest_nav = None, latest_nav_date = None\<rparr>]
   \<and> sortColumn ''median_return'' = Some rolling_return_median
   \<and> order_by_respected (sortOrder ''median_return'') rolling_return_median (\<lambda>rows. rows)
       (rank_candidates (\<lambda>c. js_includes c ''Mid Cap'') W1Y rolling_return_median
         [(''300'', \<lparr>row_scheme_name = ''F300'', row_amc = ''H'', row_category = ''Mid Cap'', row_scheme_type = None\<rparr>),
          (''100'', \<lparr>row_scheme_name = ''F100'', row_amc = ''H'', row_category = ''Mid Cap'', row_scheme_type = None\<rparr>),
          (''200'', \<lparr>row_scheme_name = ''F200'', row_amc = ''H'', row_category = ''Mid Cap'', row_scheme_type = None\<rparr>)]
         [(''300'', W1Y) \<mapsto>
            \<lparr>rolling_return_min = None, rolling_return_max = None,
             rolling_return_median = Some 2100, rolling_return_p25 = None,
             rolling_return_p75 = None, max_drawdown = Some (- 3000), cagr_min = None,
             cagr_max = None, cagr_median = None\<rparr>,
          (''100'', W1Y) \<mapsto>
            \<lparr>rolling_return_min = None, rolling_return_max = None,
             rolling_return_median = Some 1250, rolling_return_p25 = None,
             rolling_return_p75 = None, max_drawdown = Some (- 1500), cagr_min = None,
             cagr_max = None, cagr_median = None\<rparr>,
          (''200'', W1Y) \<mapsto>
            \<lparr>rolling_return_min = None, rolling_return_max = None,
             rolling_return_median = Some 900, rolling_return_p25 = None,
             rolling_return_p75 = None, max_drawdown = Some (- 2000), cagr_min = None,
             cagr_max = None, cagr_median = None\<rparr>]
         (\<lambda>c. None))
   \<and> sorted_wrt (\<lambda>x y. \<exists>a b. rolling_return_median (stats x) = Some a
                         \<and> rolling_return_median (stats y) = Some b \<and> b \<le> a)
       [\<lparr>rank_scheme_code = ''300'', rank_scheme_name = ''F300'', rank_amc = ''H'',
           rank_category = ''Mid Cap'',
           stats = \<lparr>rolling_return_min = None, rolling_return_max = None,
             rolling_return_median = Some 2100, rolling_return_p25 = None,
             rolling_return_p75 = None, max_drawdown = Some (- 3000), cagr_min = None,
             cagr_max = None, cagr_median = None\<rparr>,
           latest_nav = None, latest_nav_date = None\<rparr>,
          \<lparr>rank_scheme_code = ''100'', rank_scheme_name = ''F100'', rank_amc = ''H'',
           rank_category = ''Mid Cap'',
           stats = \<lparr>rolling_return_min = None, rolling_return_max = None,
             rolling_return_median = Some 1250, rolling_return_p25 = None,
             rolling_return_p75 = None, max_drawdown = Some (- 1500), cagr_min = None,
             cagr_max = None, cagr_median = None\<rparr>,
           latest_nav = None, latest_nav_date = None\<rparr>]"
  using rankByMetric_ordering
    [of "\<lambda>rows. rows" "\<lambda>c. js_includes c ''Mid Cap''" "''median_return''" W1Y 2
        "[(''300'', \<lparr>row_scheme_name = ''F300'', row_amc = ''H'', row_category = ''Mid Cap'', row_scheme_type = None\<rparr>),
          (''100'', \<lparr>row_scheme_name = ''F100'', row_amc = ''H'', row_category = ''Mid Cap'', row_scheme_type = None\<rparr>),
          (''200'', \<lparr>row_scheme_name = ''F200'', row_amc = ''H'', row_category = ''Mid Cap'', row_scheme_type = None\<rparr>)]"
        "[(''300'', W1Y) \<mapsto>
            \<lparr>rolling_return_min = None, rolling_return_max = None,
             rolling_return_median = Some 2100, rolling_return_p25 = None,
             rolling_return_p75 = None, max_drawdown = Some (- 3000), cagr_min = None,
             cagr_max = None, cagr_median = None\<rparr>,
          (''100'', W1Y) \<mapsto>
            \<lparr>rolling_return_min = None, rolling_return_max = None,
             rolling_return_median = Some 1250, rolling_return_p25 = None,
             rolling_return_p75 = None, max_drawdown = Some (- 1500), cagr_min = None,
             cagr_max = None, cagr_median = None\<rparr>,
          (''200'', W1Y) \<mapsto>
            \<lparr>rolling_return_min = None, rolling_return_max = None,
             rolling_return_median = Some 900, rolling_return_p25 = None,
             rolling_return_p75 = None, max_drawdown = Some (- 2000), cagr_min = None,
             cagr_max = None, cagr_median = None\<rparr>]"
        "\<lambda>c. None"
        "[\<lparr>rank_scheme_code = ''300'', rank_scheme_name = ''F300'', rank_amc = ''H'',
           rank_category = ''Mid Cap'',
           stats = \<lparr>rolling_return_min = None, rolling_return_max = None,
             rolling_return_median = Some 2100, rolling_return_p25 = None,
             rolling_return_p75 = None, max_drawdown = Some (- 3000), cagr_min = None,
             cagr_max = None, cagr_median = None\<rparr>,
           latest_nav = None, latest_nav_date = None\<rparr>,
          \<lparr>rank_scheme_code = ''100'', rank_scheme_name = ''F100'', rank_amc = ''H'',
           rank_category = ''Mid Cap'',
           stats = \<lparr>rolling_return_min = None, rolling_return_max = None,
             rolling_return_median = Some 1250, rolling_return_p25 = None,
             rolling_return_p75 = None, max_drawdown = Some (- 1500), cagr_min = None,
             cagr_max = None, cagr_median = None\<rparr>,
           latest_nav = None, latest_nav_date = None\<rparr>]"
        rolling_return_median]
  by (simp add: rankByMetric_def order_by_respected_def sortColumn_def sortOrder_def
        sample_candidates)

text \<open>
  The claim as stated fails on its last part: the statement has no second sort key. For
  two funds with equal median returns, a server that returns them as scanned and one that
  returns them in the opposite order both respect the \<open>ORDER BY\<close>, and the results list
  the two scheme codes in opposite orders.
\<close>

lemma tie_candidates:
  "(rank_candidates (\<lambda>c. js_includes c ''Mid Cap'') W1Y rolling_return_median
         [(''100'', \<lparr>row_scheme_name = ''F100'', row_amc = ''H'', row_category = ''Mid Cap'', row_scheme_type = None\<rparr>),
          (''200'', \<lparr>row_scheme_name = ''F200'', row_amc = ''H'', row_category = ''Mid Cap'', row_scheme_type = None\<rparr>)]
         [(''100'', W1Y) \<mapsto>
            \<lparr>rolling_return_min = None, rolling_return_max = None,
             rolling_return_median = Some 1250, rolling_return_p25 = None,
             rolling_return_p75 = None, max_drawdown = Some (- 1500), cagr_min = None,
             cagr_max = None, cagr_median = None\<rparr>,
          (''200'', W1Y) \<mapsto>
            \<lparr>rolling_return_min = None, rolling_return_max = None,
             rolling_return_median = Some 1250, rolling_return_p25 = None,
             rolling_return_p75 = None, max_drawdown = Some (- 1500), cagr_min = None,
             cagr_max = None, cagr_median = None\<rparr>]
         (\<lambda>c. None))
   = [\<lparr>rank_scheme_code = ''100'', rank_scheme_name = ''F100'', rank_amc = ''H'',
           rank_category = ''Mid Cap'',
           stats = \<lparr>rolling_return_min = None, rolling_return_max = None,
             rolling_return_median = Some 1250, rolling_return_p25 = None,
             rolling_return_p75 = None, max_drawdown = Some (- 1500), cagr_min = None,
             cagr_max = None, cagr_median = None\<rparr>,
           latest_nav = None, latest_nav_date = None\<rparr>,
      \<lparr>rank_scheme_code = ''200'', rank_scheme_name = ''F200'', rank_amc = ''H'',
           rank_category = ''Mid Cap'',
           stats = \<lparr>rolling_return_min = None, rolling_return_max = None,
             rolling_return_median = Some 1250, rolling_return_p25 = None,
             rolling_return_p75 = None, max_drawdown = Some (- 1500), cagr_min = None,
             cagr_max = None, cagr_median = None\<rparr>,
           latest_nav = None, latest_nav_date = None\<rparr>]"
  by (simp add: rank_candidates_def List.map_filter_def)

theorem rankByMetric_tie_counterexample:
  "order_by_respected (sortOrder ''median_return'') rolling_return_median (\<lambda>rows. rows)
     (rank_candidates (\<lambda>c. js_includes c ''Mid Cap'') W1Y rolling_return_median
         [(''100'', \<lparr>row_scheme_name = ''F100'', row_amc = ''H'', row_category = ''Mid Cap'', row_scheme_type = None\<rparr>),
          (''200'', \<lparr>row_scheme_name = ''F200'', row_amc = ''H'', row_category = ''Mid Cap'', row_scheme_type = None\<rparr>)]
         [(''100'', W1Y) \<mapsto>
            \<lparr>rolling_return_min = None, rolling_return_max = None,
             rolling_return_median = Some 1250, rolling_return_p25 = None,
             rolling_return_p75 = None, max_drawdown = Some (- 1500), cagr_min = None,
             cagr_max = None, cagr_median = None\<rparr>,
          (''200'', W1Y) \<mapsto>
            \<lparr>rolling_return_min = None, rolling_return_max = None,
             rolling_return_median = Some 1250, rolling_return_p25 = None,
             rolling_return_p75 = None, max_drawdown = Some (- 1500), cagr_min = None,
             cagr_max = None, cagr_median = None\<rparr>]
         (\<lambda>c. None))
   \<and> order_by_respected (sortOrder ''median_return'') rolling_return_median rev
     (rank_candidates (\<lambda>c. js_includes c ''Mid Cap'') W1Y rolling_return_median
         [(''100'', \<lparr>row_scheme_name = ''F100'', row_amc = ''H'', row_category = ''Mid Cap'', row_scheme_type = None\<rparr>),
          (''200'', \<lparr>row_scheme_name = ''F200'', row_amc = ''H'', row_category = ''Mid Cap'', row_scheme_type = None\<rparr>)]
         [(''100'', W1Y) \<mapsto>
            \<lparr>rolling_return_min = None, rolling_return_max = None,
             rolling_return_median = Some 1250, rolling_return_p25 = None,
             rolling_return_p75 = None, max_drawdown = Some (- 1500), cagr_min = None,
             cagr_max = None, cagr_median = None\<rparr>,
          (''200'', W1Y) \<mapsto>
            \<lparr>rolling_return_min = None, rolling_return_max = None,
             rolling_return_median = Some 1250, rolling_return_p25 = None,
             rolling_return_p75 = None, max_drawdown = Some (- 1500), cagr_min = None,
             cagr_max = None, cagr_median = None\<rparr>]
         (\<lambda>c. None))
   \<and> map_sum id (map (\<lambda>r. (rank_scheme_code r, rolling_return_median (stats r))))
       (rankByMetric (\<lambda>rows. rows) (\<lambda>c. js_includes c ''Mid Cap'') ''median_return'' W1Y 5
         [(''100'', \<lparr>row_scheme_name = ''F100'', row_amc = ''H'', row_category = ''Mid Cap'', row_scheme_type = None\<rparr>),
          (''200'', \<lparr>row_scheme_name = ''F200'', row_amc = ''H'', row_category = ''Mid Cap'', row_scheme_type = None\<rparr>)]
         [(''100'', W1Y) \<mapsto>
            \<lparr>rolling_return_min = None, rolling_return_max = None,
             rolling_return_median = Some 1250, rolling_return_p25 = None,
             rolling_return_p75 = None, max_drawdown = Some (- 1500), cagr_min = None,
             cagr_max = None, cagr_median = None\<rparr>,
          (''200'', W1Y) \<mapsto>
            \<lparr>rolling_return_min = None, rolling_return_max = None,
             rolling_return_median = Some 1250, rolling_return_p25 = None,
             rolling_return_p75 = None, max_drawdown = Some (- 1500), cagr_min = None,
             cagr_max = None, cagr_median = None\<rparr>]
         (\<lambda>c. None))
     = Inr [(''100'', Some 1250), (''200'', Some 1250)]
   \<and> map_sum id (map (\<lambda>r. (rank_scheme_code r, rolling_return_median (stats r))))
       (rankByMetric rev (\<lambda>c. js_includes c ''Mid Cap'') ''median_return'' W1Y 5
         [(''100'', \<lparr>row_scheme_name = ''F100'', row_amc = ''H'', row_category = ''Mid Cap'', row_scheme_type = None\<rparr>),
          (''200'', \<lparr>row_scheme_name = ''F200'', row_amc = ''H'', row_category = ''Mid Cap'', row_scheme_type = None\<rparr>)]
         [(''100'', W1Y) \<mapsto>
            \<lparr>rolling_return_min = None, rolling_return_max = None,
             rolling_return_median = Some 1250, rolling_return_p25 = None,
             rolling_return_p75 = None, max_drawdown = Some (- 1500), cagr_min = None,
             cagr_max = None, cagr_median = None\<rparr>,
          (''200'', W1Y) \<mapsto>
            \<lparr>rolling_return_min = None, rolling_return_max = None,
             rolling_return_median = Some 1250, rolling_return_p25 = None,
             rolling_return_p75 = None, max_drawdown = Some (- 1500), cagr_min = None,
             cagr_max = None, cagr_median = None\<rparr>]
         (\<lambda>c. None))
     = Inr [(''200'', Some 1250), (''100'', Some 1250)]"
  by (simp add: rankByMetric_def order_by_respected_def sortColumn_def sortOrder_def
        tie_candidates)

lemma map_enumerate_snd: "map (\<lambda>p. h (snd p)) (enumerate n xs) = map h xs"
  by (induction xs arbitrary: n) simp_all

lemma response_field_null_iff: "response_field pool_decimalNumbers c = JNull \<longleftrightarrow> c = None"
  by (cases c) (simp_all add: pool_decimalNumbers_def response_field_text)

lemma response_field_zero: "response_field pool_decimalNumbers (Some 0) = JNumber (Num 0)"
  by (simp add: pool_decimalNumbers_def response_field_text round_tenths_def)

lemma response_field_value:
  "response_field pool_decimalNumbers (Some k)
   = JNumber (Num (of_int (round_tenths (double_of (double_of (of_int k / 10000) * 100))) / 10))"
  by (simp add: pool_decimalNumbers_def response_field_text)

lemma response_field_near:
  "\<bar>k\<bar> < 10 ^ 10 \<longrightarrow>
   (\<exists>n. response_field pool_decimalNumbers (Some k) = JNumber (Num (of_int n / 10))
        \<and> \<bar>real_of_int n / 10 - real_of_int k / 100\<bar> \<le> 1 / 20 + 1 / 10 ^ 7)"
  using percent_near[of k] response_field_value[of k] by blast

lemma double_45: "double_of (45 / 10000) = 5188146770730811 / 2 ^ 60"
  using double_of_value[of "- 8" "45 / 10000"]
  by (simp add: pow2_def round_half_even_def)

lemma double_45_times: "double_of (5188146770730811 / 2 ^ 60 * 100) = 8106479329266892 / 2 ^ 54"
  using double_of_value[of "- 2" "5188146770730811 / 2 ^ 60 * 100"]
  by (simp add: pow2_def round_half_even_def)

lemma tenth_45: "round_tenths (8106479329266892 / 2 ^ 54) = 4"
  by (simp add: round_tenths_def)

lemma response_field_tie: "response_field pool_decimalNumbers (Some 45) = JNumber (Num (4 / 10))"
proof -
  have "double_of (real_of_int 45 / 10000) = 5188146770730811 / 2 ^ 60"
    using double_45 by simp
  hence "double_of (double_of (real_of_int 45 / 10000) * 100) = 8106479329266892 / 2 ^ 54"
    by (simp only: double_45_times)
  thus ?thesis unfolding response_field_value by (simp only: tenth_45) simp
qed

lemma double_eighth: "double_of (1 / 8) = 1 / 8"
  using double_of_value[of "- 3" "1 / 8"]
  by (simp add: pow2_def round_half_even_def)

lemma double_25_halves: "double_of (25 / 2) = 25 / 2"
  using double_of_value[of 3 "25 / 2"]
  by (simp add: pow2_def round_half_even_def)

lemma response_field_numbers:
  "response_field True c = JNull \<longleftrightarrow> c = None \<or> c = Some 0"
  by (cases c) (simp_all add: response_field_number)

lemma analytics_body_null:
    "response_rolling_returns_min (analytics_body pool_decimalNumbers a) = JNull \<longleftrightarrow> rolling_return_min a = None"
    "response_rolling_returns_max (analytics_body pool_decimalNumbers a) = JNull \<longleftrightarrow> rolling_return_max a = None"
    "response_rolling_returns_median (analytics_body pool_decimalNumbers a) = JNull \<longleftrightarrow> rolling_return_median a = None"
    "response_rolling_returns_p25 (analytics_body pool_decimalNumbers a) = JNull \<longleftrightarrow> rolling_return_p25 a = None"
    "response_rolling_returns_p75 (analytics_body pool_decimalNumbers a) = JNull \<longleftrightarrow> rolling_return_p75 a = None"
    "response_max_drawdown (analytics_body pool_decimalNumbers a) = JNull \<longleftrightarrow> max_drawdown a = None"
    "response_cagr_min (analytics_body pool_decimalNumbers a) = JNull \<longleftrightarrow> cagr_min a = None"
    "response_cagr_max (analytics_body pool_decimalNumbers a) = JNull \<longleftrightarrow> cagr_max a = None"
    "response_cagr_median (analytics_body pool_decimalNumbers a) = JNull \<longleftrightarrow> cagr_median a = None"
  by (simp_all add: analytics_body_def response_field_null_iff)

lemma formattedFunds_null:
  "map (\<lambda>f. median_return_window f = JNull) (formattedFunds pool_decimalNumbers ranked)
     = map (\<lambda>fund. rolling_return_median (stats fund) = None) ranked"
  "map (\<lambda>f. max_drawdown_window f = JNull) (formattedFunds pool_decimalNumbers ranked)
     = map (\<lambda>fund. max_drawdown (stats fund) = None) ranked"
  using map_enumerate_snd[of "\<lambda>fund. rolling_return_median (stats fund) = None" 0 ranked]
    map_enumerate_snd[of "\<lambda>fund. max_drawdown (stats fund) = None" 0 ranked]
  by (simp_all add: formattedFunds_def case_prod_beta comp_def response_field_null_iff)

text \<open>
  Claim C10. With the pool as \<open>db/connection.js\<close> creates it, every analytics field of the
  two responses is \<open>null\<close> exactly when its column is \<open>NULL\<close>. A stored 0 is returned as 0,
  because the truthiness test sees the text \<open>"0.0000"\<close>. Any other stored value \<open>v\<close> is
  returned as the number of tenths that \<open>toFixed(1)\<close> picks for the product of the doubles,
  which lies within 0.05 of \<open>v * 100\<close> (up to the error of the doubles, below \<open>10\<^sup>-\<^sup>7\<close> for a
  column of ten digits); where \<open>v * 100\<close> is half-way between two tenths the doubles decide,
  and a stored 0.0045 is returned as 0.4. A stored 0 would be returned as \<open>null\<close> by a pool
  created with \<open>decimalNumbers\<close>, which hands the number 0 to the test.
\<close>

theorem response_field_stored_value:
  "(response_field pool_decimalNumbers c = JNull \<longleftrightarrow> c = None)
   \<and> response_field pool_decimalNumbers (Some 0) = JNumber (Num 0)
   \<and> response_field pool_decimalNumbers (Some k)
       = JNumber (Num (of_int (round_tenths (double_of (double_of (of_int k / 10000) * 100)))
                       / 10))
   \<and> (\<bar>k\<bar> < 10 ^ 10 \<longrightarrow>
        (\<exists>n. response_field pool_decimalNumbers (Some k) = JNumber (Num (of_int n / 10))
             \<and> \<bar>real_of_int n / 10 - real_of_int k / 100\<bar> \<le> 1 / 20 + 1 / 10 ^ 7))
   \<and> response_field pool_decimalNumbers (Some 45) = JNumber (Num (4 / 10))
   \<and> (response_rolling_returns_min (analytics_body pool_decimalNumbers a) = JNull \<longleftrightarrow> rolling_return_min a = None)
   \<and> (response_rolling_returns_max (analytics_body pool_decimalNumbers a) = JNull \<longleftrightarrow> rolling_return_max a = None)
   \<and> (response_rolling_returns_median (analytics_body pool_decimalNumbers a) = JNull \<longleftrightarrow> rolling_return_median a = None)
   \<and> (response_rolling_returns_p25 (analytics_body pool_decimalNumbers a) = JNull \<longleftrightarrow> rolling_return_p25 a = None)
   \<and> (response_rolling_returns_p75 (analytics_body pool_decimalNumbers a) = JNull \<longleftrightarrow> rolling_return_p75 a = None)
   \<and> (response_max_drawdown (analytics_body pool_decimalNumbers a) = JNull \<longleftrightarrow> max_drawdown a = None)
   \<and> (response_cagr_min (analytics_body pool_decimalNumbers a) = JNull \<longleftrightarrow> cagr_min a = None)
   \<and> (response_cagr_max (analytics_body pool_decimalNumbers a) = JNull \<longleftrightarrow> cagr_max a = None)
   \<and> (response_cagr_median (analytics_body pool_decimalNumbers a) = JNull \<longleftrightarrow> cagr_median a = None)
   \<and> map (\<lambda>f. median_return_window f = JNull) (formattedFunds pool_decimalNumbers ranked)
       = map (\<lambda>fund. rolling_return_median (stats fund) = None) ranked
   \<and> map (\<lambda>f. max_drawdown_window f = JNull) (formattedFunds pool_decimalNumbers ranked)
       = map (\<lambda>fund. max_drawdown (stats fund) = None) ranked
   \<and> (response_field True c = JNull \<longleftrightarrow> c = None \<or> c = Some 0)"
  by (intro conjI)
     (rule response_field_null_iff response_field_zero response_field_value response_field_near
        response_field_tie analytics_body_null formattedFunds_null response_field_numbers)+

theorem response_field_stored_value_witness:
  "\<bar>1250 :: int\<bar> < 10 ^ 10
   \<and> response_field pool_decimalNumbers (Some 1250) = JNumber (Num (25 / 2))
   \<and> \<bar>25 / 2 - real_of_int 1250 / 100\<bar> \<le> 1 / 20 + 1 / 10 ^ 7
   \<and> analytics_body pool_decimalNumbers
       \<lparr>rolling_return_min = Some 0, rolling_return_max = Some 45,
        rolling_return_median = Some 0, rolling_return_p25 = None,
        rolling_return_p75 = Some 45, max_drawdown = Some 0, cagr_min = None,
        cagr_max = Some 45, cagr_median = Some 0\<rparr>
     = \<lparr>response_rolling_returns_min = JNumber (Num 0),
        response_rolling_returns_max = JNumber (Num (4 / 10)),
        response_rolling_returns_median = JNumber (Num 0),
        response_rolling_returns_p25 = JNull,
        response_rolling_returns_p75 = JNumber (Num (4 / 10)),
        response_max_drawdown = JNumber (Num 0),
        response_cagr_min = JNull,
        response_cagr_max = JNumber (Num (4 / 10)),
        response_cagr_median = JNumber (Num 0)\<rparr>"
  using response_field_stored_value [of None 1250
       "\<lparr>rolling_return_min = Some 0, rolling_return_max = Some 45,
        rolling_return_median = Some 0, rolling_return_p25 = None,
        rolling_return_p75 = Some 45, max_drawdown = Some 0, cagr_min = None,
        cagr_max = Some 45, cagr_median = Some 0\<rparr>" "[]"]
  by (simp add: analytics_body_def double_eighth double_25_halves round_tenths_def)

text \<open>
  The claim as stated fails: a stored \<open>max_drawdown\<close> of 0 is returned as 0.
\<close>

theorem response_field_zero_counterexample:
  "max_drawdown \<lparr>rolling_return_min = Some 0, rolling_return_max = Some 45,
        rolling_return_median = Some 0, rolling_return_p25 = None,
        rolling_return_p75 = Some 45, max_drawdown = Some 0, cagr_min = None,
        cagr_max = Some 45, cagr_median = Some 0\<rparr> = Some 0
   \<and> response_max_drawdown (analytics_body pool_decimalNumbers
       \<lparr>rolling_return_min = Some 0, rolling_return_max = Some 45,
        rolling_return_median = Some 0, rolling_return_p25 = None,
        rolling_return_p75 = Some 45, max_drawdown = Some 0, cagr_min = None,
        cagr_max = Some 45, cagr_median = Some 0\<rparr>)
     = JNumber (Num 0)
   \<and> JNumber (Num 0) \<noteq> JNull"
  by (simp add: analytics_body_def response_field_zero)


end
